theory Spec2Isabelle
  imports Complex_Main "HOL-Library.AList" "HOL-Library.Multiset"
begin

section \<open>The catalogue migration script (src/index.js)\<close>

text \<open>
  The script copies brands, categories and products from a source store to a destination
  store, keeps a log, and mails the log at the end of a run. Every \<open>await\<close> of the
  script is sequential, so a run is a function from the world before to the world after.

  \<^item> JSON numbers are exact rationals (\<open>rat\<close>), identifiers are integers. The script
    compares numbers with zero and subtracts two identifiers; it does no other arithmetic.
  \<^item> A field that is absent, \<open>undefined\<close> or \<open>null\<close> is \<open>None\<close>; all three are falsy.
  \<^item> A rejected promise or thrown exception is \<open>Inl error\<close>, a fulfilled one \<open>Inr value\<close>.
  \<^item> The \<open>while (true)\<close> loop of the fetcher may run forever; it returns an \<open>option\<close>,
    and \<open>None\<close> is the run that never returns.
  \<^item> Appending to the log file (\<open>fs.appendFile\<close>) may be rejected; then \<open>log\<close> throws,
    after it has pushed the entry to the buffer and written it to the console.
  \<^item> The stores keep to their interface: a resource has an integer \<open>id\<close>, a string
    \<open>name\<close> and, for a product, an array \<open>categories\<close>; a fulfilled \<open>post\<close> carries the
    created resource (an object, which is truthy); a fulfilled \<open>get\<close> carries a page of
    resources and its pagination links.
  \<^item> Runs do not overlap: a run ends before the next one starts.
\<close>

subsection \<open>Data\<close>

text \<open>An exception: \<open>error.message\<close> and \<open>error.response?.data?.title\<close>.\<close>

datatype error = Error (message: string) (title: "string option")

text \<open>
  A catalogue resource as the stores return it. The script reads \<open>id\<close> and \<open>name\<close> of
  every resource, \<open>parent_id\<close> of a category, and \<open>weight\<close>, \<open>price\<close>, \<open>categories\<close> and
  \<open>brand_id\<close> of a product.
\<close>

record resource =
  rid :: int
  rname :: string
  parent_id :: "int option"
  weight :: "rat option"
  price :: "rat option"
  categories :: "int list"
  brand_id :: "int option"

text \<open>The object literals passed to \<open>createResource\<close> (lines 79, 94-97 and 110-117).\<close>

record categoryData =
  cd_name :: string
  cd_parent_id :: int

record productData =
  pd_name :: string
  pd_type :: string
  pd_weight :: rat
  pd_price :: "rat option"
  pd_categories :: "int list"
  pd_brand_id :: "int option"

datatype payload =
    BrandData string
  | CategoryData categoryData
  | ProductData productData

text \<open>\<open>data.name\<close>\<close>

fun name :: "payload \<Rightarrow> string" where
  "name (BrandData n) = n"
| "name (CategoryData d) = cd_name d"
| "name (ProductData d) = pd_name d"

text \<open>
  One page of a listing: \<open>response.data.data\<close>, and whether
  \<open>response.data.meta.pagination.links.next\<close> is truthy.
\<close>

record page =
  page_data :: "resource list"
  links_next :: bool

text \<open>The requests a run sends to the two stores, in the order it sends them.\<close>

datatype request =
    Get string nat nat
  | Post string payload

text \<open>
  An axios instance. The reply to \<open>get\<close> is a function of endpoint, page and limit: a run
  asks for each page of each endpoint at most once, so this covers every behaviour of the
  source within a run. The reply to \<open>post\<close> may depend on everything the run has sent
  before (the destination assigns identifiers and rejects duplicates).
\<close>

record api =
  get :: "string \<Rightarrow> nat \<Rightarrow> nat \<Rightarrow> error + page"
  post :: "request list \<Rightarrow> string \<Rightarrow> payload \<Rightarrow> error + resource"

record email =
  e_from :: string
  e_to :: string
  e_subject :: string
  e_text :: string

text \<open>
  What the script does not decide: the two stores, the clock (\<open>now n\<close> is the \<open>n\<close>-th
  reading of \<open>new Date().toISOString()\<close>), the file system (\<open>appendFile tried line\<close> is
  \<open>Some error\<close> when \<open>fs.appendFile\<close> rejects the line, after the lines \<open>tried\<close> before
  it), the mail service (\<open>Some error\<close> when \<open>resend.emails.send\<close> throws) and the
  recipient \<open>EMAIL_TO\<close>.
\<close>

record env =
  sourceApi :: api
  destApi :: api
  now :: "nat \<Rightarrow> string"
  appendFile :: "string list \<Rightarrow> string \<Rightarrow> error option"
  send :: "email \<Rightarrow> error option"
  EMAIL_TO :: string

text \<open>
  The state a run changes: the module variable \<open>logs\<close>, the file \<open>migration.log\<close>, the
  console, the number of clock readings, the lines handed to \<open>fs.appendFile\<close> (accepted
  or not), the requests and the mails handed to the mail service so far.
\<close>

record world =
  logs :: "string list"
  logFile :: "string list"
  console :: "string list"
  ticks :: nat
  attempts :: "string list"
  requests :: "request list"
  emails :: "email list"

type_synonym 'a outcome = "(error + 'a) \<times> world"

subsection \<open>JavaScript primitives\<close>

definition newline :: string where
  "newline = [CHR 0x0A]"

text \<open>Truthiness of a value that is a number or absent: zero and absent are falsy.\<close>

definition truthy :: "'a::zero option \<Rightarrow> bool" where
  "truthy v = (case v of None \<Rightarrow> False | Some n \<Rightarrow> n \<noteq> 0)"

text \<open>\<open>v || 0\<close>\<close>

definition orZero :: "'a::zero option \<Rightarrow> 'a" where
  "orZero v = (case v of None \<Rightarrow> 0 | Some n \<Rightarrow> if truthy v then n else 0)"

text \<open>\<open>v || null\<close>\<close>

definition orNull :: "'a::zero option \<Rightarrow> 'a option" where
  "orNull v = (if truthy v then v else None)"

text \<open>
  A \<open>Map\<close> from source to destination identifiers, as the list of its entries in
  insertion order. \<open>Map.get\<close> of an absent key is \<open>undefined\<close>; the key itself may be
  \<open>undefined\<close> (an absent \<open>parent_id\<close> or \<open>brand_id\<close>), which no entry has.
  \<open>Map.set\<close> overwrites the entry of a key that is present and appends otherwise, which
  is \<^const>\<open>AList.update\<close>.
\<close>

type_synonym idMap = "(int \<times> int) list"

definition mapGet :: "idMap \<Rightarrow> int option \<Rightarrow> int option" where
  "mapGet m key = (case key of None \<Rightarrow> None | Some k \<Rightarrow> map_of m k)"

definition mapSet :: "int \<Rightarrow> int \<Rightarrow> idMap \<Rightarrow> idMap" where
  "mapSet k v m = AList.update k v m"

definition mapSize :: "idMap \<Rightarrow> nat" where
  "mapSize m = length m"

text \<open>
  \<open>Array.prototype.sort\<close> with a comparator is stable (ECMAScript 2019, Node 11 and
  later). For a comparator that is a difference of keys every stable sort returns the
  same array; it is written here as insertion from the right: an element moves behind the
  later elements it compares greater than (\<open>cmp x y > 0\<close>: \<open>x\<close> sorts after \<open>y\<close>) and stays in
  front of the first one it does not.
\<close>

fun jsInsert :: "('a \<Rightarrow> 'a \<Rightarrow> int) \<Rightarrow> 'a \<Rightarrow> 'a list \<Rightarrow> 'a list" where
  "jsInsert cmp x [] = [x]"
| "jsInsert cmp x (y # ys) = (if cmp x y > 0 then y # jsInsert cmp x ys else x # y # ys)"

fun jsSort :: "('a \<Rightarrow> 'a \<Rightarrow> int) \<Rightarrow> 'a list \<Rightarrow> 'a list" where
  "jsSort cmp [] = []"
| "jsSort cmp (x # xs) = jsInsert cmp x (jsSort cmp xs)"

text \<open>Template-literal conversion of a non-negative integer (\<open>`${brandMap.size}`\<close>).\<close>

definition digitChar :: "nat \<Rightarrow> char" where
  "digitChar d = char_of (48 + d)"

fun natToString :: "nat \<Rightarrow> string" where
  "natToString n =
     (if n < 10 then [digitChar n] else natToString (n div 10) @ [digitChar (n mod 10)])"

declare natToString.simps [simp del]

subsection \<open>log (lines 34-42)\<close>

text \<open>\<open>`${timestamp}: ${message}\n`\<close>\<close>

definition logMessage :: "string \<Rightarrow> string \<Rightarrow> string" where
  "logMessage timestamp msg = timestamp @ '': '' @ msg @ newline"

text \<open>
  The entry is pushed and printed before the file is written; a rejected write throws and
  leaves the file as it was.
\<close>

definition log :: "env \<Rightarrow> string \<Rightarrow> world \<Rightarrow> unit outcome" where
  "log env msg w =
     (let timestamp = now env (ticks w);
          line = logMessage timestamp msg;
          w1 = w\<lparr>ticks := Suc (ticks w),
                 logs := logs w @ [line],
                 console := console w @ [line],
                 attempts := attempts w @ [line]\<rparr>
      in case appendFile env (attempts w) line of
           None \<Rightarrow> (Inr (), w1\<lparr>logFile := logFile w @ [line]\<rparr>)
         | Some error \<Rightarrow> (Inl error, w1))"

subsection \<open>fetchAllResources (lines 44-61)\<close>

definition limit :: nat where
  "limit = 250"

partial_function (option) fetchLoop ::
  "env \<Rightarrow> api \<Rightarrow> string \<Rightarrow> nat \<Rightarrow> resource list \<Rightarrow> world \<Rightarrow> (resource list) outcome option"
where
  "fetchLoop env api endpoint page resources w =
     (let w1 = w\<lparr>requests := requests w @ [Get endpoint page limit]\<rparr> in
      case get api endpoint page limit of
        Inr response \<Rightarrow>
          (let resources' = resources @ page_data response in
           if \<not> links_next response then Some (Inr resources', w1)
           else fetchLoop env api endpoint (page + 1) resources' w1)
      | Inl error \<Rightarrow>
          (case log env (''Error fetching '' @ endpoint @ '': '' @ message error) w1 of
             (Inl thrown, w2) \<Rightarrow> Some (Inl thrown, w2)
           | (Inr _, w2) \<Rightarrow> Some (Inl error, w2)))"

declare fetchLoop.simps [code]

definition fetchAllResources :: "env \<Rightarrow> api \<Rightarrow> string \<Rightarrow> world \<Rightarrow> (resource list) outcome option" where
  "fetchAllResources env api endpoint w = fetchLoop env api endpoint 1 [] w"

subsection \<open>createResource (lines 63-72)\<close>

text \<open>\<open>error.response?.data?.title || error.message\<close>: an empty title is falsy.\<close>

definition errorDetail :: "error \<Rightarrow> string" where
  "errorDetail error =
     (case title error of
        Some t \<Rightarrow> if t \<noteq> [] then t else message error
      | None \<Rightarrow> message error)"

text \<open>
  The result is the created resource, or \<open>None\<close> for \<open>null\<close>. The \<open>catch\<close> block also
  catches what \<open>log\<close> throws in the \<open>try\<close> block; what \<open>log\<close> throws in the \<open>catch\<close>
  block leaves the function.
\<close>

definition createResource ::
  "env \<Rightarrow> api \<Rightarrow> string \<Rightarrow> payload \<Rightarrow> string \<Rightarrow> world \<Rightarrow> (resource option) outcome"
where
  "createResource env api endpoint data type w =
     (let w1 = w\<lparr>requests := requests w @ [Post endpoint data]\<rparr>;
          catch = (\<lambda>error w2.
            case log env (''Failed to create '' @ type @ '' '' @ name data @ '': ''
                            @ errorDetail error) w2 of
              (Inl thrown, w3) \<Rightarrow> (Inl thrown, w3)
            | (Inr _, w3) \<Rightarrow> (Inr None, w3))
      in case post api (requests w) endpoint data of
           Inr response \<Rightarrow>
             (case log env (''Created '' @ type @ '': '' @ name data) w1 of
                (Inl error, w2) \<Rightarrow> catch error w2
              | (Inr _, w2) \<Rightarrow> (Inr (Some response), w2))
         | Inl error \<Rightarrow> catch error w1)"

subsection \<open>migrateBrands (lines 74-85)\<close>

fun brandLoop :: "env \<Rightarrow> resource list \<Rightarrow> idMap \<Rightarrow> world \<Rightarrow> idMap outcome" where
  "brandLoop env [] brandMap w = (Inr brandMap, w)"
| "brandLoop env (brand # rest) brandMap w =
     (case createResource env (destApi env) ''/catalog/brands'' (BrandData (rname brand)) ''brand'' w of
        (Inl error, w1) \<Rightarrow> (Inl error, w1)
      | (Inr newBrand, w1) \<Rightarrow>
          (case newBrand of
             Some created \<Rightarrow> brandLoop env rest (mapSet (rid brand) (rid created) brandMap) w1
           | None \<Rightarrow> brandLoop env rest brandMap w1))"

definition migrateBrands :: "env \<Rightarrow> world \<Rightarrow> idMap outcome option" where
  "migrateBrands env w =
     (case fetchAllResources env (sourceApi env) ''/catalog/brands'' w of
        None \<Rightarrow> None
      | Some (Inl error, w1) \<Rightarrow> Some (Inl error, w1)
      | Some (Inr brands, w1) \<Rightarrow> Some (brandLoop env brands [] w1))"

subsection \<open>migrateCategories (lines 87-104)\<close>

text \<open>\<open>(a, b) => (a.parent_id || 0) - (b.parent_id || 0)\<close>\<close>

definition parentKey :: "resource \<Rightarrow> int" where
  "parentKey a = orZero (parent_id a)"

definition compareParent :: "resource \<Rightarrow> resource \<Rightarrow> int" where
  "compareParent a b = parentKey a - parentKey b"

definition newCategoryData :: "idMap \<Rightarrow> resource \<Rightarrow> categoryData" where
  "newCategoryData categoryMap category =
     \<lparr>cd_name = rname category,
      cd_parent_id = orZero (mapGet categoryMap (parent_id category))\<rparr>"

fun categoryLoop :: "env \<Rightarrow> resource list \<Rightarrow> idMap \<Rightarrow> world \<Rightarrow> idMap outcome" where
  "categoryLoop env [] categoryMap w = (Inr categoryMap, w)"
| "categoryLoop env (category # rest) categoryMap w =
     (case createResource env (destApi env) ''/catalog/categories''
             (CategoryData (newCategoryData categoryMap category)) ''category'' w of
        (Inl error, w1) \<Rightarrow> (Inl error, w1)
      | (Inr newCategory, w1) \<Rightarrow>
          (case newCategory of
             Some created \<Rightarrow>
               categoryLoop env rest (mapSet (rid category) (rid created) categoryMap) w1
           | None \<Rightarrow> categoryLoop env rest categoryMap w1))"

definition migrateCategories :: "env \<Rightarrow> world \<Rightarrow> idMap outcome option" where
  "migrateCategories env w =
     (case fetchAllResources env (sourceApi env) ''/catalog/categories'' w of
        None \<Rightarrow> None
      | Some (Inl error, w1) \<Rightarrow> Some (Inl error, w1)
      | Some (Inr categories', w1) \<Rightarrow>
          (let sortedCategories = jsSort compareParent categories'
           in Some (categoryLoop env sortedCategories [] w1)))"

subsection \<open>migrateProducts (lines 106-121)\<close>

definition newProductData :: "idMap \<Rightarrow> idMap \<Rightarrow> resource \<Rightarrow> productData" where
  "newProductData brandMap categoryMap product =
     \<lparr>pd_name = rname product,
      pd_type = ''physical'',
      pd_weight = orZero (weight product),
      pd_price = price product,
      pd_categories =
        map the (filter truthy (map (\<lambda>id. mapGet categoryMap (Some id)) (categories product))),
      pd_brand_id = orNull (mapGet brandMap (brand_id product))\<rparr>"

fun productLoop :: "env \<Rightarrow> resource list \<Rightarrow> idMap \<Rightarrow> idMap \<Rightarrow> world \<Rightarrow> unit outcome" where
  "productLoop env [] brandMap categoryMap w = (Inr (), w)"
| "productLoop env (product # rest) brandMap categoryMap w =
     (case createResource env (destApi env) ''/catalog/products''
             (ProductData (newProductData brandMap categoryMap product)) ''product'' w of
        (Inl error, w1) \<Rightarrow> (Inl error, w1)
      | (Inr _, w1) \<Rightarrow> productLoop env rest brandMap categoryMap w1)"

definition migrateProducts :: "env \<Rightarrow> idMap \<Rightarrow> idMap \<Rightarrow> world \<Rightarrow> unit outcome option" where
  "migrateProducts env brandMap categoryMap w =
     (case fetchAllResources env (sourceApi env) ''/catalog/products'' w of
        None \<Rightarrow> None
      | Some (Inl error, w1) \<Rightarrow> Some (Inl error, w1)
      | Some (Inr products, w1) \<Rightarrow> Some (productLoop env products brandMap categoryMap w1))"

subsection \<open>sendEmailLog (lines 123-136)\<close>

definition emailOf :: "env \<Rightarrow> world \<Rightarrow> email" where
  "emailOf env w =
     (let logContent = concat (logs w) in
      \<lparr>e_from = ''Migration Script <onboarding@resend.dev>'',
       e_to = EMAIL_TO env,
       e_subject = ''BigCommerce Migration Log'',
       e_text = ''Migration completed at '' @ now env (ticks w) @ newline @ newline
                @ ''Logs:'' @ newline @ logContent\<rparr>)"

definition sendEmailLog :: "env \<Rightarrow> world \<Rightarrow> unit outcome" where
  "sendEmailLog env w =
     (let mail = emailOf env w;
          w1 = w\<lparr>ticks := Suc (ticks w), emails := emails w @ [mail]\<rparr>;
          catch = (\<lambda>error w2. log env (''Failed to send email: '' @ message error) w2)
      in case send env mail of
           None \<Rightarrow>
             (case log env ''Email sent successfully'' w1 of
                (Inl error, w2) \<Rightarrow> catch error w2
              | (Inr _, w2) \<Rightarrow> (Inr (), w2))
         | Some error \<Rightarrow> catch error w1)"

subsection \<open>runMigration (lines 138-156)\<close>

text \<open>The body of the \<open>try\<close> block.\<close>

definition stages :: "env \<Rightarrow> world \<Rightarrow> unit outcome option" where
  "stages env w =
     (case migrateBrands env w of
        None \<Rightarrow> None
      | Some (Inl error, w1) \<Rightarrow> Some (Inl error, w1)
      | Some (Inr brandMap, w1) \<Rightarrow>
          (case log env (''Migrated '' @ natToString (mapSize brandMap) @ '' brands'') w1 of
             (Inl error, w2) \<Rightarrow> Some (Inl error, w2)
           | (Inr _, w2) \<Rightarrow>
               (case migrateCategories env w2 of
                  None \<Rightarrow> None
                | Some (Inl error, w3) \<Rightarrow> Some (Inl error, w3)
                | Some (Inr categoryMap, w3) \<Rightarrow>
                    (case log env (''Migrated '' @ natToString (mapSize categoryMap)
                                     @ '' categories'') w3 of
                       (Inl error, w4) \<Rightarrow> Some (Inl error, w4)
                     | (Inr _, w4) \<Rightarrow>
                         (case migrateProducts env brandMap categoryMap w4 of
                            None \<Rightarrow> None
                          | Some (Inl error, w5) \<Rightarrow> Some (Inl error, w5)
                          | Some (Inr _, w5) \<Rightarrow> Some (log env ''Migration completed'' w5))))))"

text \<open>
  The first \<open>log\<close> stands outside the \<open>try\<close> block, and the \<open>catch\<close> block and
  \<open>sendEmailLog\<close> call \<open>log\<close> themselves: what \<open>log\<close> throws there leaves
  \<open>runMigration\<close>.
\<close>

definition runMigration :: "env \<Rightarrow> world \<Rightarrow> unit outcome option" where
  "runMigration env w =
     (case log env ''Starting migration...'' (w\<lparr>logs := []\<rparr>) of
        (Inl error, w1) \<Rightarrow> Some (Inl error, w1)
      | (Inr _, w1) \<Rightarrow>
          (case stages env w1 of
             None \<Rightarrow> None
           | Some (Inl error, w2) \<Rightarrow>
               (case log env (''Migration failed: '' @ message error) w2 of
                  (Inl thrown, w3) \<Rightarrow> Some (Inl thrown, w3)
                | (Inr _, w3) \<Rightarrow> Some (sendEmailLog env w3))
           | Some (Inr _, w2) \<Rightarrow> Some (sendEmailLog env w2)))"

subsection \<open>Observations on a run\<close>

text \<open>
  These functions are not part of the script; the lemmas use them to read the trace of
  requests a run leaves behind.
\<close>

fun endpointOf :: "request \<Rightarrow> string" where
  "endpointOf (Get endpoint _ _) = endpoint"
| "endpointOf (Post endpoint _) = endpoint"

fun isGet :: "request \<Rightarrow> bool" where
  "isGet (Get _ _ _) = True"
| "isGet (Post _ _) = False"

text \<open>
  The destination confirmed the creation asked for by the \<open>n\<close>-th request of a trace: the
  request is a \<open>post\<close>, and the reply to it, after the requests before it, is not an error.
\<close>

definition confirmed :: "api \<Rightarrow> request list \<Rightarrow> nat \<Rightarrow> bool" where
  "confirmed api trace n =
     (case trace ! n of
        Post endpoint data \<Rightarrow> \<not> isl (post api (take n trace) endpoint data)
      | Get _ _ _ \<Rightarrow> False)"

text \<open>
  The items of a stage whose creation was confirmed, when the request for the \<open>i\<close>-th
  item is the request number \<open>n + i\<close> of the trace.
\<close>

definition confirmedItems :: "api \<Rightarrow> request list \<Rightarrow> nat \<Rightarrow> resource list \<Rightarrow> resource list" where
  "confirmedItems api trace n items =
     map (\<lambda>i. items ! i) (filter (\<lambda>i. confirmed api trace (n + i)) [0..<length items])"

text \<open>
  The resource the destination returned for the \<open>n\<close>-th request of a trace, when that
  request is a \<open>post\<close> it accepted.
\<close>

definition createdAt :: "api \<Rightarrow> request list \<Rightarrow> nat \<Rightarrow> resource option" where
  "createdAt api trace n =
     (case trace ! n of
        Post endpoint data \<Rightarrow>
          (case post api (take n trace) endpoint data of
             Inr created \<Rightarrow> Some created
           | Inl _ \<Rightarrow> None)
      | Get _ _ _ \<Rightarrow> None)"

text \<open>The file system accepts every line handed to \<open>fs.appendFile\<close>.\<close>

definition accepts :: "env \<Rightarrow> bool" where
  "accepts env \<longleftrightarrow> (\<forall>tried line. appendFile env tried line = None)"

text \<open>The world a call of \<open>log\<close> leaves.\<close>

definition logged :: "env \<Rightarrow> string \<Rightarrow> world \<Rightarrow> world" where
  "logged env msg w = snd (log env msg w)"

text \<open>
  What a part of a run adds: the entries \<open>es\<close> to the log buffer, the requests \<open>rs\<close> to
  the trace, no mail, and lines to the log file, which are the entries \<open>es\<close> when the file
  system accepts every line.
\<close>

definition appended :: "env \<Rightarrow> world \<Rightarrow> world \<Rightarrow> string list \<Rightarrow> request list \<Rightarrow> bool" where
  "appended env w w' es rs \<longleftrightarrow>
     logs w' = logs w @ es \<and> requests w' = requests w @ rs \<and> emails w' = emails w \<and>
     (\<exists>fs. logFile w' = logFile w @ fs \<and> (accepts env \<longrightarrow> fs = es))"

text \<open>
  The listing of an endpoint, as the source serves it: page \<open>j\<close> is served with a next
  link; the request for page \<open>k\<close> fails after the pages before it were served with a next
  link; page \<open>k\<close> is the last one.
\<close>

definition continues :: "api \<Rightarrow> string \<Rightarrow> nat \<Rightarrow> bool" where
  "continues api endpoint j =
     (case get api endpoint j limit of Inr r \<Rightarrow> links_next r | Inl _ \<Rightarrow> False)"

definition failsAt :: "api \<Rightarrow> string \<Rightarrow> nat \<Rightarrow> error \<Rightarrow> bool" where
  "failsAt api endpoint k error \<longleftrightarrow>
     1 \<le> k \<and> get api endpoint k limit = Inl error \<and> (\<forall>j \<in> {1..<k}. continues api endpoint j)"

definition endsAt :: "api \<Rightarrow> string \<Rightarrow> nat \<Rightarrow> bool" where
  "endsAt api endpoint k \<longleftrightarrow>
     1 \<le> k \<and>
     (case get api endpoint k limit of Inr r \<Rightarrow> \<not> links_next r | Inl _ \<Rightarrow> False) \<and>
     (\<forall>j \<in> {1..<k}. continues api endpoint j)"

text \<open>
  The message \<open>createResource\<close> logs, and the world it leaves, when the file system
  accepts the line.
\<close>

definition createMessage :: "string \<Rightarrow> payload \<Rightarrow> (error + resource) \<Rightarrow> string" where
  "createMessage type data r =
     (case r of
        Inr _ \<Rightarrow> ''Created '' @ type @ '': '' @ name data
      | Inl error \<Rightarrow> ''Failed to create '' @ type @ '' '' @ name data @ '': '' @ errorDetail error)"

definition posted :: "env \<Rightarrow> string \<Rightarrow> payload \<Rightarrow> string \<Rightarrow> world \<Rightarrow> world" where
  "posted env endpoint data type w =
     logged env (createMessage type data (post (destApi env) (requests w) endpoint data))
       (w\<lparr>requests := requests w @ [Post endpoint data]\<rparr>)"

subsection \<open>Example stores\<close>

definition mkResource :: "int \<Rightarrow> string \<Rightarrow> resource" where
  "mkResource i n =
     \<lparr>rid = i, rname = n, parent_id = None, weight = None, price = None,
      categories = [], brand_id = None\<rparr>"

text \<open>
  A source with two brands, three categories on two pages and three products, and a
  destination that numbers what it creates by the requests it has seen and rejects the
  brand \<open>Bolt\<close>.
\<close>

definition exampleSource :: api where
  "exampleSource =
     \<lparr>get = (\<lambda>endpoint page limit.
        if endpoint = ''/catalog/brands'' \<and> page = 1 then
          Inr \<lparr>page_data = [mkResource 1 ''Acme'', mkResource 2 ''Bolt''], links_next = False\<rparr>
        else if endpoint = ''/catalog/categories'' \<and> page = 1 then
          Inr \<lparr>page_data = [(mkResource 1 ''Garden'')\<lparr>parent_id := Some 0\<rparr>,
                            (mkResource 2 ''Tools'')\<lparr>parent_id := Some 1\<rparr>],
               links_next = True\<rparr>
        else if endpoint = ''/catalog/categories'' \<and> page = 2 then
          Inr \<lparr>page_data = [(mkResource 3 ''Seeds'')\<lparr>parent_id := Some 1\<rparr>],
               links_next = False\<rparr>
        else if endpoint = ''/catalog/products'' \<and> page = 1 then
          Inr \<lparr>page_data =
                 [(mkResource 11 ''Spade'')\<lparr>price := Some 20, weight := Some 2,
                                            categories := [2], brand_id := Some 1\<rparr>,
                  (mkResource 12 ''Rake'')\<lparr>price := Some 15, categories := [2, 6],
                                           brand_id := Some 2\<rparr>,
                  (mkResource 13 ''Basil'')\<lparr>price := Some 3, categories := [3]\<rparr>],
               links_next = False\<rparr>
        else Inl (Error ''Request failed with status code 404'' None)),
      post = (\<lambda>history endpoint data. Inl (Error ''Request failed with status code 403'' None))\<rparr>"

definition exampleDest :: api where
  "exampleDest =
     \<lparr>get = (\<lambda>endpoint page limit. Inl (Error ''Request failed with status code 403'' None)),
      post = (\<lambda>history endpoint data.
        if name data = ''Bolt'' then
          Inl (Error ''Request failed with status code 409'' (Some ''Duplicate brand''))
        else Inr (mkResource (100 + int (length history)) (name data)))\<rparr>"

definition exampleEnv :: env where
  "exampleEnv =
     \<lparr>sourceApi = exampleSource, destApi = exampleDest,
      now = (\<lambda>n. ''2026-01-01T01:00:00.000Z''),
      appendFile = (\<lambda>tried line. None),
      send = (\<lambda>mail. None),
      EMAIL_TO = ''ops@example.com''\<rparr>"

definition freshWorld :: world where
  "freshWorld =
     \<lparr>logs = [], logFile = [], console = [], ticks = 0, attempts = [], requests = [],
      emails = []\<rparr>"

text \<open>
  The same source with a second page of categories that fails, and one with a category
  whose parent is not in the source.
\<close>

definition brokenSource :: api where
  "brokenSource =
     exampleSource\<lparr>get := (\<lambda>endpoint page limit.
        if endpoint = ''/catalog/categories'' \<and> page = 2 then
          Inl (Error ''Request failed with status code 500'' None)
        else get exampleSource endpoint page limit)\<rparr>"

definition brokenEnv :: env where
  "brokenEnv = exampleEnv\<lparr>sourceApi := brokenSource\<rparr>"

definition orphanSource :: api where
  "orphanSource =
     exampleSource\<lparr>get := (\<lambda>endpoint page limit.
        if endpoint = ''/catalog/categories'' \<and> page = 1 then
          Inr \<lparr>page_data = [(mkResource 4 ''Lost'')\<lparr>parent_id := Some 9\<rparr>,
                            (mkResource 1 ''Garden'')],
               links_next = False\<rparr>
        else get exampleSource endpoint page limit)\<rparr>"

definition orphanEnv :: env where
  "orphanEnv = exampleEnv\<lparr>sourceApi := orphanSource\<rparr>"


definition staleWorld :: world where
  "staleWorld = freshWorld\<lparr>logs := [''entry of an earlier run''],
                            logFile := [''entry of an earlier run'']\<rparr>"

text \<open>
  A file system that rejects every line, and one that rejects the first line handed to
  it and accepts the lines after it.
\<close>

definition fullDiskEnv :: env where
  "fullDiskEnv =
     exampleEnv\<lparr>appendFile := (\<lambda>tried line.
        Some (Error ''ENOSPC: no space left on device, open migration.log'' None))\<rparr>"

definition flakyDiskEnv :: env where
  "flakyDiskEnv =
     exampleEnv\<lparr>appendFile := (\<lambda>tried line.
        if tried = [] then Some (Error ''EBUSY: resource busy or locked, open migration.log'' None)
        else None)\<rparr>"

section \<open>Properties\<close>

subsection \<open>Logging and creation\<close>

lemma logged_fields [simp]:
  "logs (logged env msg w) = logs w @ [logMessage (now env (ticks w)) msg]"
  "console (logged env msg w) = console w @ [logMessage (now env (ticks w)) msg]"
  "attempts (logged env msg w) = attempts w @ [logMessage (now env (ticks w)) msg]"
  "requests (logged env msg w) = requests w"
  "emails (logged env msg w) = emails w"
  "ticks (logged env msg w) = Suc (ticks w)"
  by (simp_all add: logged_def log_def Let_def split: option.splits)

lemma logged_logFile:
  "logFile (logged env msg w) =
     (case appendFile env (attempts w) (logMessage (now env (ticks w)) msg) of
        None \<Rightarrow> logFile w @ [logMessage (now env (ticks w)) msg]
      | Some _ \<Rightarrow> logFile w)"
  by (simp add: logged_def log_def Let_def split: option.splits)

lemma log_result:
  "log env msg w =
     (case appendFile env (attempts w) (logMessage (now env (ticks w)) msg) of
        None \<Rightarrow> Inr ()
      | Some error \<Rightarrow> Inl error,
      logged env msg w)"
  by (simp add: logged_def log_def Let_def split: option.splits)

lemma log_accepts: "accepts env \<Longrightarrow> log env msg w = (Inr (), logged env msg w)"
  by (simp add: log_result accepts_def)

lemma logged_logFile_accepts [simp]:
  "accepts env \<Longrightarrow> logFile (logged env msg w) = logFile w @ [logMessage (now env (ticks w)) msg]"
  by (simp add: logged_logFile accepts_def)

lemma log_world: "log env msg w = (r, w') \<Longrightarrow> w' = logged env msg w"
  by (simp add: logged_def)

lemma appended_refl: "appended env w w [] []"
  by (simp add: appended_def)

lemma appended_trans:
  "appended env w w1 es rs \<Longrightarrow> appended env w1 w2 es' rs' \<Longrightarrow>
   appended env w w2 (es @ es') (rs @ rs')"
  by (auto simp: appended_def)

lemma appended_logged:
  "appended env w (logged env msg w) [logMessage (now env (ticks w)) msg] []"
  by (auto simp: appended_def logged_logFile split: option.splits simp: accepts_def)

lemma appended_log:
  "log env msg w = (r, w') \<Longrightarrow> appended env w w' [logMessage (now env (ticks w)) msg] []"
  by (metis log_world appended_logged)

lemma appended_request:
  "appended env (w\<lparr>requests := requests w @ [q]\<rparr>) w' es rs \<Longrightarrow> appended env w w' es (q # rs)"
  by (simp add: appended_def)

text \<open>What \<open>createResource\<close> adds to the world, and what it returns.\<close>

lemma createResource_appended:
  assumes "createResource env api endpoint data type w = (r, w')"
  shows "\<exists>es. appended env w w' es [Post endpoint data]"
proof -
  let ?w1 = "w\<lparr>requests := requests w @ [Post endpoint data]\<rparr>"
  let ?fail = "\<lambda>error. ''Failed to create '' @ type @ '' '' @ name data @ '': '' @ errorDetail error"
  let ?ok = "''Created '' @ type @ '': '' @ name data"
  have one: "\<exists>es. appended env w (logged env m ?w1) es [Post endpoint data]" for m
    using appended_request[OF appended_logged[of env ?w1 m]] by auto
  have two: "\<exists>es. appended env w (logged env m2 (logged env m1 ?w1)) es [Post endpoint data]" for m1 m2
    using appended_request[OF appended_trans[OF appended_logged[of env ?w1 m1]
          appended_logged[of env "logged env m1 ?w1" m2]]] by auto
  from assms have "w' = logged env ?ok ?w1 \<or> (\<exists>e. w' = logged env (?fail e) ?w1) \<or>
      (\<exists>e. w' = logged env (?fail e) (logged env ?ok ?w1))"
    by (auto simp: createResource_def Let_def log_result split: sum.splits option.splits)
  with one two show ?thesis by blast
qed

lemma createResource_Some:
  assumes "createResource env api endpoint data type w = (Inr (Some created), w')"
  shows "post api (requests w) endpoint data = Inr created"
  using assms
  by (auto simp: createResource_def Let_def log_result split: sum.splits option.splits)

lemma createResource_eq:
  assumes "accepts env"
  shows "createResource env (destApi env) endpoint data type w =
     (Inr (case post (destApi env) (requests w) endpoint data of
             Inr created \<Rightarrow> Some created
           | Inl _ \<Rightarrow> None),
      posted env endpoint data type w)"
  by (simp add: createResource_def Let_def posted_def createMessage_def log_accepts[OF assms]
      split: sum.splits)

lemma posted_fields [simp]:
  "requests (posted env endpoint data type w) = requests w @ [Post endpoint data]"
  "emails (posted env endpoint data type w) = emails w"
  "logs (posted env endpoint data type w) =
     logs w @ [logMessage (now env (ticks w))
                 (createMessage type data (post (destApi env) (requests w) endpoint data))]"
  by (simp_all add: posted_def)

lemma appended_posted:
  "appended env w (posted env endpoint data type w)
     [logMessage (now env (ticks w))
        (createMessage type data (post (destApi env) (requests w) endpoint data))]
     [Post endpoint data]"
  unfolding posted_def
  using appended_request[OF appended_logged[of env "w\<lparr>requests := requests w @ [Post endpoint data]\<rparr>"]]
  by simp

text \<open>
  C5, as stated, fails when the log file cannot be written. On a full disk the destination
  creates the brand, the entry \<open>Created brand: Acme\<close> is pushed and its write is rejected;
  the \<open>catch\<close> block pushes a second entry, \<open>Failed to create brand Acme: ...\<close>, whose
  write is rejected too, and \<open>createResource\<close> throws: two entries, and neither the
  resource nor \<open>null\<close> is returned.
\<close>

theorem createResource_throws_on_full_disk:
  "post exampleDest [] ''/catalog/brands'' (BrandData ''Acme'') = Inr (mkResource 100 ''Acme'') \<and>
   createResource fullDiskEnv exampleDest ''/catalog/brands'' (BrandData ''Acme'') ''brand'' freshWorld =
     (Inl (Error ''ENOSPC: no space left on device, open migration.log'' None),
      freshWorld
        \<lparr>logs := [''2026-01-01T01:00:00.000Z: Created brand: Acme'' @ [CHR 0x0A],
                  ''2026-01-01T01:00:00.000Z: Failed to create brand Acme: ENOSPC: no space left on device, open migration.log'' @ [CHR 0x0A]],
         console := [''2026-01-01T01:00:00.000Z: Created brand: Acme'' @ [CHR 0x0A],
                     ''2026-01-01T01:00:00.000Z: Failed to create brand Acme: ENOSPC: no space left on device, open migration.log'' @ [CHR 0x0A]],
         ticks := 2,
         attempts := [''2026-01-01T01:00:00.000Z: Created brand: Acme'' @ [CHR 0x0A],
                      ''2026-01-01T01:00:00.000Z: Failed to create brand Acme: ENOSPC: no space left on device, open migration.log'' @ [CHR 0x0A]],
         requests := [Post ''/catalog/brands'' (BrandData ''Acme'')]\<rparr>)"
  by (simp add: createResource_def log_def Let_def logMessage_def newline_def errorDetail_def
      fullDiskEnv_def exampleEnv_def exampleDest_def freshWorld_def)

text \<open>
  C5, amended. When the file system accepts the line written next, \<open>createResource\<close>
  does not throw. When the destination accepts the request it returns the created
  resource and logs the one entry \<open><timestamp>: Created <type>: <name>\<close>; when the
  request fails it returns \<open>null\<close> and logs the one entry
  \<open><timestamp>: Failed to create <type> <name>: <detail>\<close>, where the detail is the
  title the server reported, or the error's message when there is no title (or an empty
  one). Either way the buffer and the file grow by exactly that entry, and the request is
  the only one sent.
\<close>

theorem createResource_one_entry:
  assumes "\<forall>line. appendFile env (attempts w) line = None"
  shows "\<exists>r w'. createResource env api endpoint data type w = (Inr r, w') \<and>
     requests w' = requests w @ [Post endpoint data] \<and>
     (case post api (requests w) endpoint data of
        Inr created \<Rightarrow>
          r = Some created \<and>
          logs w' = logs w @
            [now env (ticks w) @ '': Created '' @ type @ '': '' @ name data @ [CHR 0x0A]] \<and>
          logFile w' = logFile w @
            [now env (ticks w) @ '': Created '' @ type @ '': '' @ name data @ [CHR 0x0A]]
      | Inl error \<Rightarrow>
          r = None \<and>
          logs w' = logs w @
            [now env (ticks w) @ '': Failed to create '' @ type @ '' '' @ name data @ '': '' @
               (case title error of
                  Some t \<Rightarrow> if t = [] then message error else t
                | None \<Rightarrow> message error) @ [CHR 0x0A]] \<and>
          logFile w' = logFile w @
            [now env (ticks w) @ '': Failed to create '' @ type @ '' '' @ name data @ '': '' @
               (case title error of
                  Some t \<Rightarrow> if t = [] then message error else t
                | None \<Rightarrow> message error) @ [CHR 0x0A]])"
  using assms
  by (auto simp: createResource_def log_def Let_def logMessage_def newline_def errorDetail_def
      split: sum.splits option.splits)

theorem createResource_one_entry_witness:
  "(\<exists>w'. createResource exampleEnv exampleDest ''/catalog/brands'' (BrandData ''Acme'') ''brand''
           freshWorld = (Inr (Some (mkResource 100 ''Acme'')), w') \<and>
         logs w' = [''2026-01-01T01:00:00.000Z: Created brand: Acme'' @ [CHR 0x0A]]) \<and>
   (\<exists>w'. createResource exampleEnv exampleDest ''/catalog/brands'' (BrandData ''Bolt'') ''brand''
           freshWorld = (Inr None, w') \<and>
         logs w' = [''2026-01-01T01:00:00.000Z: Failed to create brand Bolt: Duplicate brand'' @ [CHR 0x0A]] \<and>
         logFile w' = logs w')"
proof -
  have ok: "\<forall>line. appendFile exampleEnv (attempts freshWorld) line = None"
    by (simp add: exampleEnv_def)
  have acme: "post exampleDest (requests freshWorld) ''/catalog/brands'' (BrandData ''Acme'') =
      Inr (mkResource 100 ''Acme'')"
    by (simp add: exampleDest_def freshWorld_def)
  have bolt: "post exampleDest (requests freshWorld) ''/catalog/brands'' (BrandData ''Bolt'') =
      Inl (Error ''Request failed with status code 409'' (Some ''Duplicate brand''))"
    by (simp add: exampleDest_def)
  have fw: "logs freshWorld = []" "logFile freshWorld = []" "ticks freshWorld = 0"
    "now exampleEnv 0 = ''2026-01-01T01:00:00.000Z''"
    by (simp_all add: freshWorld_def exampleEnv_def)
  from createResource_one_entry[OF ok, of exampleDest "''/catalog/brands''" "BrandData ''Acme''" "''brand''"]
  have a: "\<exists>w'. createResource exampleEnv exampleDest ''/catalog/brands'' (BrandData ''Acme'') ''brand''
           freshWorld = (Inr (Some (mkResource 100 ''Acme'')), w') \<and>
         logs w' = [''2026-01-01T01:00:00.000Z: Created brand: Acme'' @ [CHR 0x0A]]"
    unfolding acme by (auto simp: fw)
  from createResource_one_entry[OF ok, of exampleDest "''/catalog/brands''" "BrandData ''Bolt''" "''brand''"]
  have b: "\<exists>w'. createResource exampleEnv exampleDest ''/catalog/brands'' (BrandData ''Bolt'') ''brand''
           freshWorld = (Inr None, w') \<and>
         logs w' = [''2026-01-01T01:00:00.000Z: Failed to create brand Bolt: Duplicate brand'' @ [CHR 0x0A]] \<and>
         logFile w' = logs w'"
    unfolding bolt by (auto simp: fw)
  from a b show ?thesis by blast
qed

subsection \<open>The paginated fetcher\<close>

lemma map_upt_shift: "map f [0..<Suc n] = f 0 # map (\<lambda>j. f (Suc j)) [0..<n]"
proof -
  have "[0..<Suc n] = 0 # map Suc [0..<n]"
    by (simp add: upt_conv_Cons map_Suc_upt del: upt_Suc)
  then show ?thesis
    by (simp add: o_def del: upt_Suc)
qed

lemma fetchLoop_pages:
  assumes "\<forall>j<length ps. \<exists>r. get api endpoint (page + j) limit = Inr r \<and> page_data r = ps ! j \<and>
                                links_next r = (Suc j < length ps)"
    and "ps \<noteq> []"
  shows "fetchLoop env api endpoint page acc w =
           Some (Inr (acc @ concat ps),
                 w\<lparr>requests := requests w @ map (\<lambda>j. Get endpoint (page + j) limit) [0..<length ps]\<rparr>)"
  using assms
proof (induction ps arbitrary: page acc w)
  case Nil
  then show ?case by simp
next
  case (Cons p ps)
  from Cons.prems(1) obtain r where
    r: "get api endpoint page limit = Inr r" "page_data r = p" "links_next r = (ps \<noteq> [])"
    by fastforce
  show ?case
  proof (cases "ps = []")
    case True
    with r show ?thesis
      by (subst fetchLoop.simps) (simp add: Let_def)
  next
    case False
    have shifted: "\<forall>j<length ps. \<exists>r. get api endpoint (Suc page + j) limit = Inr r \<and>
                      page_data r = ps ! j \<and> links_next r = (Suc j < length ps)"
    proof (intro allI impI)
      fix j assume "j < length ps"
      with Cons.prems(1)[rule_format, of "Suc j"] show
        "\<exists>r. get api endpoint (Suc page + j) limit = Inr r \<and>
              page_data r = ps ! j \<and> links_next r = (Suc j < length ps)"
        by simp
    qed
    have upt: "map (\<lambda>j. Get endpoint (page + j) limit) [0..<length (p # ps)] =
               Get endpoint page limit # map (\<lambda>j. Get endpoint (Suc page + j) limit) [0..<length ps]"
      by (simp add: map_upt_shift del: upt_Suc)
    have "fetchLoop env api endpoint page acc w =
            fetchLoop env api endpoint (Suc page) (acc @ p)
              (w\<lparr>requests := requests w @ [Get endpoint page limit]\<rparr>)"
      using r False by (subst fetchLoop.simps) (simp add: Let_def)
    also have "\<dots> = Some (Inr ((acc @ p) @ concat ps),
        (w\<lparr>requests := requests w @ [Get endpoint page limit]\<rparr>)
          \<lparr>requests := requests (w\<lparr>requests := requests w @ [Get endpoint page limit]\<rparr>) @
             map (\<lambda>j. Get endpoint (Suc page + j) limit) [0..<length ps]\<rparr>)"
      by (rule Cons.IH[OF shifted False])
    finally show ?thesis
      unfolding upt by simp
  qed
qed

lemma fetchLoop_fails:
  assumes "get api endpoint (page + n) limit = Inl e"
    and "\<forall>j<n. \<exists>r. get api endpoint (page + j) limit = Inr r \<and> links_next r"
  shows "\<exists>thrown w'. fetchLoop env api endpoint page acc w = Some (Inl thrown, w') \<and>
           requests w' = requests w @ map (\<lambda>j. Get endpoint (page + j) limit) [0..<Suc n] \<and>
           logs w' = logs w @ [logMessage (now env (ticks w))
                                 (''Error fetching '' @ endpoint @ '': '' @ message e)] \<and>
           emails w' = emails w \<and>
           (case appendFile env (attempts w)
                   (logMessage (now env (ticks w))
                      (''Error fetching '' @ endpoint @ '': '' @ message e)) of
              None \<Rightarrow> thrown = e
            | Some error \<Rightarrow> thrown = error)"
  using assms
proof (induction n arbitrary: page acc w)
  case 0
  then show ?case
    by (subst fetchLoop.simps) (simp add: Let_def log_result split: option.splits)
next
  case (Suc n)
  from Suc.prems(2)[rule_format, of 0] obtain r where
    r: "get api endpoint page limit = Inr r" "links_next r" by auto
  have step: "fetchLoop env api endpoint page acc w =
            fetchLoop env api endpoint (Suc page) (acc @ page_data r)
              (w\<lparr>requests := requests w @ [Get endpoint page limit]\<rparr>)"
    using r by (subst fetchLoop.simps) (simp add: Let_def)
  have a: "get api endpoint (Suc page + n) limit = Inl e"
    using Suc.prems(1) by simp
  have b: "\<forall>j<n. \<exists>r. get api endpoint (Suc page + j) limit = Inr r \<and> links_next r"
  proof (intro allI impI)
    fix j assume "j < n"
    with Suc.prems(2)[rule_format, of "Suc j"]
    show "\<exists>r. get api endpoint (Suc page + j) limit = Inr r \<and> links_next r" by simp
  qed
  have upt: "map (\<lambda>j. Get endpoint (page + j) limit) [0..<Suc (Suc n)] =
             Get endpoint page limit # map (\<lambda>j. Get endpoint (Suc page + j) limit) [0..<Suc n]"
    by (simp add: map_upt_shift[of _ "Suc n"] del: upt_Suc)
  from Suc.IH[OF a b, of "acc @ page_data r" "w\<lparr>requests := requests w @ [Get endpoint page limit]\<rparr>"]
  show ?case
    unfolding step upt by simp
qed

lemma fetchLoop_returns:
  assumes "case get api endpoint (page + n) limit of Inl _ \<Rightarrow> True | Inr r \<Rightarrow> \<not> links_next r"
  shows "\<exists>y. fetchLoop env api endpoint page acc w = Some y"
  using assms
proof (induction n arbitrary: page acc w)
  case 0
  then show ?case
    by (subst fetchLoop.simps) (auto simp: Let_def log_result split: sum.splits option.splits)
next
  case (Suc n)
  from Suc.prems have "case get api endpoint (Suc page + n) limit of Inl _ \<Rightarrow> True | Inr r \<Rightarrow> \<not> links_next r"
    by simp
  from Suc.IH[OF this] show ?case
    by (subst fetchLoop.simps) (auto simp: Let_def log_result split: sum.splits option.splits)
qed

lemma fetchLoop_appended:
  assumes "fetchLoop env api endpoint page resources w = Some y"
  shows "\<exists>es rs. appended env w (snd y) es rs \<and>
           (\<forall>q \<in> set rs. isGet q \<and> endpointOf q = endpoint) \<and>
           (case fst y of Inl _ \<Rightarrow> length es = 1 | Inr _ \<Rightarrow> es = [])"
proof (rule fetchLoop.raw_induct
    [where P = "\<lambda>env api endpoint page resources w y.
       \<exists>es rs. appended env w (snd y) es rs \<and>
           (\<forall>q \<in> set rs. isGet q \<and> endpointOf q = endpoint) \<and>
           (case fst y of Inl _ \<Rightarrow> length es = 1 | Inr _ \<Rightarrow> es = [])", OF _ assms], goal_cases)
  case (1 f env api endpoint page resources w y)
  let ?w1 = "w\<lparr>requests := requests w @ [Get endpoint page limit]\<rparr>"
  show ?case
  proof (cases "get api endpoint page limit")
    case (Inl e)
    let ?m = "''Error fetching '' @ endpoint @ '': '' @ message e"
    from Inl 1(2) have y: "snd y = logged env ?m ?w1" "isl (fst y)"
      by (auto simp: Let_def log_result split: option.splits)
    have "appended env w (snd y) [logMessage (now env (ticks w)) ?m] [Get endpoint page limit]"
      unfolding y using appended_request[OF appended_logged[of env ?w1 ?m]] by simp
    with y(2) show ?thesis
      by (intro exI[of _ "[logMessage (now env (ticks w)) ?m]"] exI[of _ "[Get endpoint page limit]"])
         (auto split: sum.splits)
  next
    case (Inr response)
    show ?thesis
    proof (cases "links_next response")
      case False
      with Inr 1(2) have y: "y = (Inr (resources @ page_data response), ?w1)"
        by (simp add: Let_def)
      show ?thesis
        unfolding y
        by (rule exI[of _ "[]"], rule exI[of _ "[Get endpoint page limit]"])
           (simp add: appended_def)
    next
      case True
      with Inr 1(2) have "f env api endpoint (page + 1) (resources @ page_data response) ?w1 = Some y"
        by (simp add: Let_def)
      from 1(1)[OF this] obtain es rs where
        a: "appended env ?w1 (snd y) es rs"
        and g: "\<forall>q \<in> set rs. isGet q \<and> endpointOf q = endpoint"
        and e: "case fst y of Inl _ \<Rightarrow> length es = 1 | Inr _ \<Rightarrow> es = []"
        by blast
      from appended_request[OF a] g e show ?thesis
        by (intro exI[of _ es] exI[of _ "Get endpoint page limit # rs"]) simp
    qed
  qed
qed

lemma fetchAllResources_appended:
  assumes "fetchAllResources env api endpoint w = Some (r, w')"
  shows "\<exists>es rs. appended env w w' es rs \<and>
           (\<forall>q \<in> set rs. isGet q \<and> endpointOf q = endpoint) \<and>
           (case r of Inl _ \<Rightarrow> length es = 1 | Inr _ \<Rightarrow> es = [])"
  using fetchLoop_appended[OF assms[unfolded fetchAllResources_def]] by simp


text \<open>
  C4. When the request for page \<open>k\<close> fails, after the pages before it were served with a
  next link, the fetch throws: the caller gets an error and no list of items, whatever
  the pages before had delivered. The error thrown is the error of the request when the
  log file takes the entry \<open>Error fetching ...\<close>, and the error of the file system when
  it does not. Each of the three stages hands the error on in the world the fetch left,
  without asking the destination for anything.
\<close>

theorem fetch_failure_is_fatal:
  assumes k: "1 \<le> k"
    and fails: "get api endpoint k limit = Inl error"
    and before: "\<forall>j. 1 \<le> j \<and> j < k \<longrightarrow> (\<exists>r. get api endpoint j limit = Inr r \<and> links_next r)"
  shows "\<exists>thrown w'.
     fetchAllResources env api endpoint w = Some (Inl thrown, w') \<and>
     (case appendFile env (attempts w)
             (logMessage (now env (ticks w))
                (''Error fetching '' @ endpoint @ '': '' @ message error)) of
        None \<Rightarrow> thrown = error
      | Some rejected \<Rightarrow> thrown = rejected) \<and>
     requests w' = requests w @ map (\<lambda>j. Get endpoint (Suc j) limit) [0..<k] \<and>
     logs w' = logs w @ [logMessage (now env (ticks w))
                           (''Error fetching '' @ endpoint @ '': '' @ message error)] \<and>
     (api = sourceApi env \<longrightarrow>
        (endpoint = ''/catalog/brands'' \<longrightarrow> migrateBrands env w = Some (Inl thrown, w')) \<and>
        (endpoint = ''/catalog/categories'' \<longrightarrow> migrateCategories env w = Some (Inl thrown, w')) \<and>
        (endpoint = ''/catalog/products'' \<longrightarrow>
           migrateProducts env brandMap categoryMap w = Some (Inl thrown, w')))"
proof -
  from k obtain n where n: "k = Suc n" by (cases k) auto
  have a: "get api endpoint (1 + n) limit = Inl error"
    using fails n by simp
  have b: "\<forall>j<n. \<exists>r. get api endpoint (1 + j) limit = Inr r \<and> links_next r"
    using before n by auto
  from fetchLoop_fails[OF a b, of env "[]" w] obtain thrown w' where
    w': "fetchLoop env api endpoint 1 [] w = Some (Inl thrown, w')"
      "requests w' = requests w @ map (\<lambda>j. Get endpoint (1 + j) limit) [0..<Suc n]"
      "logs w' = logs w @ [logMessage (now env (ticks w))
                           (''Error fetching '' @ endpoint @ '': '' @ message error)]"
      "case appendFile env (attempts w)
             (logMessage (now env (ticks w))
                (''Error fetching '' @ endpoint @ '': '' @ message error)) of
        None \<Rightarrow> thrown = error
      | Some rejected \<Rightarrow> thrown = rejected"
    by blast
  have f: "fetchAllResources env api endpoint w = Some (Inl thrown, w')"
    using w'(1) by (simp add: fetchAllResources_def)
  have callers: "api = sourceApi env \<longrightarrow>
        (endpoint = ''/catalog/brands'' \<longrightarrow> migrateBrands env w = Some (Inl thrown, w')) \<and>
        (endpoint = ''/catalog/categories'' \<longrightarrow> migrateCategories env w = Some (Inl thrown, w')) \<and>
        (endpoint = ''/catalog/products'' \<longrightarrow>
           migrateProducts env brandMap categoryMap w = Some (Inl thrown, w'))"
    using f by (auto simp: migrateBrands_def migrateCategories_def migrateProducts_def)
  have r: "requests w' = requests w @ map (\<lambda>j. Get endpoint (Suc j) limit) [0..<k]"
    using w'(2) n by simp
  from f r w'(3,4) callers show ?thesis by blast
qed

theorem fetch_failure_is_fatal_witness:
  "\<exists>w'. migrateCategories brokenEnv freshWorld =
           Some (Inl (Error ''Request failed with status code 500'' None), w') \<and>
         requests w' = [Get ''/catalog/categories'' 1 250, Get ''/catalog/categories'' 2 250]"
proof -
  have k: "(1::nat) \<le> 2" by simp
  have fails: "get brokenSource ''/catalog/categories'' 2 limit =
                 Inl (Error ''Request failed with status code 500'' None)"
    by (simp add: brokenSource_def)
  have before: "\<forall>j. 1 \<le> j \<and> j < 2 \<longrightarrow>
                  (\<exists>r. get brokenSource ''/catalog/categories'' j limit = Inr r \<and> links_next r)"
  proof (intro allI impI)
    fix j :: nat assume "1 \<le> j \<and> j < 2"
    then have "j = 1" by arith
    then show "\<exists>r. get brokenSource ''/catalog/categories'' j limit = Inr r \<and> links_next r"
      by (simp add: brokenSource_def exampleSource_def)
  qed
  have upt: "[0..<(2::nat)] = [0, Suc 0]"
    by (simp add: upt_rec)
  from fetch_failure_is_fatal[OF k fails before, of brokenEnv freshWorld]
  show ?thesis
    by (auto simp: brokenEnv_def exampleEnv_def freshWorld_def limit_def upt numeral_2_eq_2)
qed

text \<open>
  C7. When the listing is served as the pages \<open>pages\<close>, one after the other, each with a
  next link exactly when a later page exists, the fetch returns the items of all pages in
  the order served, each once: the concatenation of the pages. The pages may have any
  sizes.
\<close>

theorem fetch_returns_every_item:
  assumes pages: "pages \<noteq> []"
    and served: "\<forall>j<length pages. \<exists>r. get api endpoint (Suc j) limit = Inr r \<and>
                    page_data r = pages ! j \<and> links_next r = (Suc j < length pages)"
  shows "\<exists>w'.
     fetchAllResources env api endpoint w = Some (Inr (concat pages), w') \<and>
     requests w' = requests w @ map (\<lambda>j. Get endpoint (Suc j) limit) [0..<length pages] \<and>
     logs w' = logs w"
proof -
  have "\<forall>j<length pages. \<exists>r. get api endpoint (1 + j) limit = Inr r \<and>
           page_data r = pages ! j \<and> links_next r = (Suc j < length pages)"
    using served by simp
  from fetchLoop_pages[OF this pages, of env "[]" w]
  show ?thesis
    by (simp add: fetchAllResources_def)
qed

theorem fetch_returns_every_item_witness:
  "\<exists>w'. fetchAllResources exampleEnv exampleSource ''/catalog/categories'' freshWorld =
          Some (Inr [(mkResource 1 ''Garden'')\<lparr>parent_id := Some 0\<rparr>,
                     (mkResource 2 ''Tools'')\<lparr>parent_id := Some 1\<rparr>,
                     (mkResource 3 ''Seeds'')\<lparr>parent_id := Some 1\<rparr>], w') \<and>
        requests w' = [Get ''/catalog/categories'' 1 250, Get ''/catalog/categories'' 2 250]"
proof -
  let ?pages = "[[(mkResource 1 ''Garden'')\<lparr>parent_id := Some 0\<rparr>,
                  (mkResource 2 ''Tools'')\<lparr>parent_id := Some 1\<rparr>],
                 [(mkResource 3 ''Seeds'')\<lparr>parent_id := Some 1\<rparr>]]"
  have pages: "?pages \<noteq> []" by simp
  have served: "\<forall>j<length ?pages. \<exists>r. get exampleSource ''/catalog/categories'' (Suc j) limit = Inr r \<and>
                    page_data r = ?pages ! j \<and> links_next r = (Suc j < length ?pages)"
  proof (intro allI impI)
    fix j assume "j < length ?pages"
    then have "j = 0 \<or> j = 1" by auto
    then show "\<exists>r. get exampleSource ''/catalog/categories'' (Suc j) limit = Inr r \<and>
                    page_data r = ?pages ! j \<and> links_next r = (Suc j < length ?pages)"
      by (auto simp: exampleSource_def)
  qed
  have upt: "[0..<(2::nat)] = [0, Suc 0]"
    by (simp add: upt_rec)
  from fetch_returns_every_item[OF pages served, of exampleEnv freshWorld]
  show ?thesis
    by (auto simp: freshWorld_def limit_def upt numeral_2_eq_2)
qed

subsection \<open>The loops over brands, categories and products\<close>

lemma categoryLoop_appended:
  "categoryLoop env cs m w = (r, w') \<Longrightarrow>
   \<exists>es rs. appended env w w' es rs \<and>
     (\<forall>q \<in> set rs. \<not> isGet q \<and> endpointOf q = ''/catalog/categories'') \<and>
     length rs \<le> length cs \<and> (\<not> isl r \<longrightarrow> length rs = length cs)"
proof (induction cs arbitrary: m w)
  case Nil
  then show ?case
    by (intro exI[of _ "[]"]) (auto simp: appended_def)
next
  case (Cons c cs)
  let ?d = "CategoryData (newCategoryData m c)"
  obtain r1 w1 where cr: "createResource env (destApi env) ''/catalog/categories'' ?d ''category'' w = (r1, w1)"
    by (cases "createResource env (destApi env) ''/catalog/categories'' ?d ''category'' w")
  from createResource_appended[OF cr] obtain e1 where
    a1: "appended env w w1 e1 [Post ''/catalog/categories'' ?d]" by blast
  show ?case
  proof (cases r1)
    case (Inl e)
    with Cons.prems cr have "r = Inl e" "w' = w1" by (simp_all add: categoryLoop.simps)
    with a1 show ?thesis
      by (intro exI[of _ e1] exI[of _ "[Post ''/catalog/categories'' ?d]"]) simp
  next
    case (Inr v)
    with Cons.prems cr obtain m1 where "categoryLoop env cs m1 w1 = (r, w')"
      by (cases v) (auto simp: categoryLoop.simps)
    from Cons.IH[OF this] obtain es rs where
      ih: "appended env w1 w' es rs"
          "\<forall>q \<in> set rs. \<not> isGet q \<and> endpointOf q = ''/catalog/categories''"
          "length rs \<le> length cs" "\<not> isl r \<longrightarrow> length rs = length cs" by blast
    from appended_trans[OF a1 ih(1)] ih(2,3,4) show ?thesis
      by (intro exI[of _ "e1 @ es"] exI[of _ "Post ''/catalog/categories'' ?d # rs"]) simp
  qed
qed

lemma categoryLoop_first:
  assumes "categoryLoop env (c # cs) m w = (r, w')"
  shows "\<exists>rs. requests w' =
           requests w @ Post ''/catalog/categories'' (CategoryData (newCategoryData m c)) # rs"
proof -
  let ?d = "CategoryData (newCategoryData m c)"
  obtain r1 w1 where cr: "createResource env (destApi env) ''/catalog/categories'' ?d ''category'' w = (r1, w1)"
    by (cases "createResource env (destApi env) ''/catalog/categories'' ?d ''category'' w")
  from createResource_appended[OF cr] have r1: "requests w1 = requests w @ [Post ''/catalog/categories'' ?d]"
    by (auto simp: appended_def)
  show ?thesis
  proof (cases r1)
    case (Inl e)
    with assms cr have "w' = w1" by (simp add: categoryLoop.simps)
    with r1 show ?thesis by simp
  next
    case (Inr v)
    with assms cr obtain m1 where "categoryLoop env cs m1 w1 = (r, w')"
      by (cases v) (auto simp: categoryLoop.simps)
    from categoryLoop_appended[OF this] r1 show ?thesis
      by (auto simp: appended_def)
  qed
qed

lemma categoryLoop_append:
  "categoryLoop env xs m w = (Inr m1, w1) \<Longrightarrow>
   categoryLoop env (xs @ ys) m w = categoryLoop env ys m1 w1"
proof (induction xs arbitrary: m w)
  case Nil
  then show ?case by simp
next
  case (Cons x xs)
  let ?d = "CategoryData (newCategoryData m x)"
  obtain r0 w0 where cr: "createResource env (destApi env) ''/catalog/categories'' ?d ''category'' w = (r0, w0)"
    by (cases "createResource env (destApi env) ''/catalog/categories'' ?d ''category'' w")
  show ?case
  proof (cases r0)
    case (Inl e)
    with Cons.prems cr show ?thesis by (simp add: categoryLoop.simps)
  next
    case (Inr v)
    show ?thesis
    proof (cases v)
      case None
      with Inr Cons.prems cr have "categoryLoop env xs m w0 = (Inr m1, w1)"
        by (simp add: categoryLoop.simps)
      from Cons.IH[OF this] None Inr cr show ?thesis by (simp add: categoryLoop.simps)
    next
      case (Some created)
      with Inr Cons.prems cr have "categoryLoop env xs (mapSet (rid x) (rid created) m) w0 = (Inr m1, w1)"
        by (simp add: categoryLoop.simps)
      from Cons.IH[OF this] Some Inr cr show ?thesis by (simp add: categoryLoop.simps)
    qed
  qed
qed

lemma categoryLoop_nth:
  assumes i: "i < length cs"
    and pre: "categoryLoop env (take i cs) m w = (Inr mi, wi)"
    and run: "categoryLoop env cs m w = (r, w')"
  shows "requests wi = take (length (requests w) + i) (requests w')"
    and "requests w' ! (length (requests w) + i) =
           Post ''/catalog/categories'' (CategoryData (newCategoryData mi (cs ! i)))"
    and "length (requests w) + i < length (requests w')"
proof -
  have split: "cs = take i cs @ (cs ! i) # drop (Suc i) cs"
    using i by (simp add: id_take_nth_drop)
  have "categoryLoop env (take i cs @ (cs ! i) # drop (Suc i) cs) m w
          = categoryLoop env ((cs ! i) # drop (Suc i) cs) mi wi"
    by (rule categoryLoop_append[OF pre])
  with split run have rest: "categoryLoop env ((cs ! i) # drop (Suc i) cs) mi wi = (r, w')"
    by simp
  from categoryLoop_appended[OF pre] i obtain rs where
    rs: "requests wi = requests w @ rs" "length rs = i" by (auto simp: appended_def)
  from categoryLoop_first[OF rest] obtain rs' where
    rs': "requests w' = requests wi @
            Post ''/catalog/categories'' (CategoryData (newCategoryData mi (cs ! i))) # rs'"
    by blast
  show "requests wi = take (length (requests w) + i) (requests w')"
    using rs rs' by simp
  show "requests w' ! (length (requests w) + i) =
           Post ''/catalog/categories'' (CategoryData (newCategoryData mi (cs ! i)))"
    using rs rs' by (simp add: nth_append)
  show "length (requests w) + i < length (requests w')"
    using rs rs' by simp
qed

lemma brandLoop_appended:
  "brandLoop env cs m w = (r, w') \<Longrightarrow>
   \<exists>es rs. appended env w w' es rs \<and>
     (\<forall>q \<in> set rs. \<not> isGet q \<and> endpointOf q = ''/catalog/brands'') \<and>
     length rs \<le> length cs \<and> (\<not> isl r \<longrightarrow> length rs = length cs)"
proof (induction cs arbitrary: m w)
  case Nil
  then show ?case
    by (intro exI[of _ "[]"]) (auto simp: appended_def)
next
  case (Cons c cs)
  let ?d = "BrandData (rname c)"
  obtain r1 w1 where cr: "createResource env (destApi env) ''/catalog/brands'' ?d ''brand'' w = (r1, w1)"
    by (cases "createResource env (destApi env) ''/catalog/brands'' ?d ''brand'' w")
  from createResource_appended[OF cr] obtain e1 where
    a1: "appended env w w1 e1 [Post ''/catalog/brands'' ?d]" by blast
  show ?case
  proof (cases r1)
    case (Inl e)
    with Cons.prems cr have "r = Inl e" "w' = w1" by (simp_all add: brandLoop.simps)
    with a1 show ?thesis
      by (intro exI[of _ e1] exI[of _ "[Post ''/catalog/brands'' ?d]"]) simp
  next
    case (Inr v)
    with Cons.prems cr obtain m1 where "brandLoop env cs m1 w1 = (r, w')"
      by (cases v) (auto simp: brandLoop.simps)
    from Cons.IH[OF this] obtain es rs where
      ih: "appended env w1 w' es rs"
          "\<forall>q \<in> set rs. \<not> isGet q \<and> endpointOf q = ''/catalog/brands''"
          "length rs \<le> length cs" "\<not> isl r \<longrightarrow> length rs = length cs" by blast
    from appended_trans[OF a1 ih(1)] ih(2,3,4) show ?thesis
      by (intro exI[of _ "e1 @ es"] exI[of _ "Post ''/catalog/brands'' ?d # rs"]) simp
  qed
qed

lemma brandLoop_first:
  assumes "brandLoop env (c # cs) m w = (r, w')"
  shows "\<exists>rs. requests w' =
           requests w @ Post ''/catalog/brands'' (BrandData (rname c)) # rs"
proof -
  let ?d = "BrandData (rname c)"
  obtain r1 w1 where cr: "createResource env (destApi env) ''/catalog/brands'' ?d ''brand'' w = (r1, w1)"
    by (cases "createResource env (destApi env) ''/catalog/brands'' ?d ''brand'' w")
  from createResource_appended[OF cr] have r1: "requests w1 = requests w @ [Post ''/catalog/brands'' ?d]"
    by (auto simp: appended_def)
  show ?thesis
  proof (cases r1)
    case (Inl e)
    with assms cr have "w' = w1" by (simp add: brandLoop.simps)
    with r1 show ?thesis by simp
  next
    case (Inr v)
    with assms cr obtain m1 where "brandLoop env cs m1 w1 = (r, w')"
      by (cases v) (auto simp: brandLoop.simps)
    from brandLoop_appended[OF this] r1 show ?thesis
      by (auto simp: appended_def)
  qed
qed

lemma productLoop_appended:
  "productLoop env cs bm cm w = (r, w') \<Longrightarrow>
   \<exists>es rs. appended env w w' es rs \<and>
     (\<forall>q \<in> set rs. \<not> isGet q \<and> endpointOf q = ''/catalog/products'') \<and>
     length rs \<le> length cs \<and> (\<not> isl r \<longrightarrow> length rs = length cs)"
proof (induction cs arbitrary: w)
  case Nil
  then show ?case
    by (intro exI[of _ "[]"]) (auto simp: appended_def)
next
  case (Cons c cs)
  let ?d = "ProductData (newProductData bm cm c)"
  obtain r1 w1 where cr: "createResource env (destApi env) ''/catalog/products'' ?d ''product'' w = (r1, w1)"
    by (cases "createResource env (destApi env) ''/catalog/products'' ?d ''product'' w")
  from createResource_appended[OF cr] obtain e1 where
    a1: "appended env w w1 e1 [Post ''/catalog/products'' ?d]" by blast
  show ?case
  proof (cases r1)
    case (Inl e)
    with Cons.prems cr have "r = Inl e" "w' = w1" by (simp_all add: productLoop.simps)
    with a1 show ?thesis
      by (intro exI[of _ e1] exI[of _ "[Post ''/catalog/products'' ?d]"]) simp
  next
    case (Inr v)
    with Cons.prems cr have "productLoop env cs bm cm w1 = (r, w')"
      by (simp add: productLoop.simps)
    from Cons.IH[OF this] obtain es rs where
      ih: "appended env w1 w' es rs"
          "\<forall>q \<in> set rs. \<not> isGet q \<and> endpointOf q = ''/catalog/products''"
          "length rs \<le> length cs" "\<not> isl r \<longrightarrow> length rs = length cs" by blast
    from appended_trans[OF a1 ih(1)] ih(2,3,4) show ?thesis
      by (intro exI[of _ "e1 @ es"] exI[of _ "Post ''/catalog/products'' ?d # rs"]) simp
  qed
qed

lemma productLoop_first:
  assumes "productLoop env (c # cs) bm cm w = (r, w')"
  shows "\<exists>rs. requests w' =
           requests w @ Post ''/catalog/products'' (ProductData (newProductData bm cm c)) # rs"
proof -
  let ?d = "ProductData (newProductData bm cm c)"
  obtain r1 w1 where cr: "createResource env (destApi env) ''/catalog/products'' ?d ''product'' w = (r1, w1)"
    by (cases "createResource env (destApi env) ''/catalog/products'' ?d ''product'' w")
  from createResource_appended[OF cr] have r1: "requests w1 = requests w @ [Post ''/catalog/products'' ?d]"
    by (auto simp: appended_def)
  show ?thesis
  proof (cases r1)
    case (Inl e)
    with assms cr have "w' = w1" by (simp add: productLoop.simps)
    with r1 show ?thesis by simp
  next
    case (Inr v)
    with assms cr have "productLoop env cs bm cm w1 = (r, w')"
      by (simp add: productLoop.simps)
    from productLoop_appended[OF this] r1 show ?thesis
      by (auto simp: appended_def)
  qed
qed

lemma productLoop_append:
  "productLoop env xs bm cm w = (Inr (), w1) \<Longrightarrow>
   productLoop env (xs @ ys) bm cm w = productLoop env ys bm cm w1"
proof (induction xs arbitrary: w)
  case Nil
  then show ?case by simp
next
  case (Cons x xs)
  let ?d = "ProductData (newProductData bm cm x)"
  obtain r0 w0 where cr: "createResource env (destApi env) ''/catalog/products'' ?d ''product'' w = (r0, w0)"
    by (cases "createResource env (destApi env) ''/catalog/products'' ?d ''product'' w")
  show ?case
  proof (cases r0)
    case (Inl e)
    with Cons.prems cr show ?thesis by (simp add: productLoop.simps)
  next
    case (Inr v)
    with Cons.prems cr have "productLoop env xs bm cm w0 = (Inr (), w1)"
      by (simp add: productLoop.simps)
    from Cons.IH[OF this] Inr cr show ?thesis by (simp add: productLoop.simps)
  qed
qed

lemma productLoop_nth:
  assumes i: "i < length cs"
    and pre: "productLoop env (take i cs) bm cm w = (Inr (), wi)"
    and run: "productLoop env cs bm cm w = (r, w')"
  shows "requests wi = take (length (requests w) + i) (requests w')"
    and "requests w' ! (length (requests w) + i) =
           Post ''/catalog/products'' (ProductData (newProductData bm cm (cs ! i)))"
    and "length (requests w) + i < length (requests w')"
proof -
  have split: "cs = take i cs @ (cs ! i) # drop (Suc i) cs"
    using i by (simp add: id_take_nth_drop)
  have "productLoop env (take i cs @ (cs ! i) # drop (Suc i) cs) bm cm w
          = productLoop env ((cs ! i) # drop (Suc i) cs) bm cm wi"
    by (rule productLoop_append[OF pre])
  with split run have rest: "productLoop env ((cs ! i) # drop (Suc i) cs) bm cm wi = (r, w')"
    by simp
  from productLoop_appended[OF pre] i obtain rs where
    rs: "requests wi = requests w @ rs" "length rs = i" by (auto simp: appended_def)
  from productLoop_first[OF rest] obtain rs' where
    rs': "requests w' = requests wi @
            Post ''/catalog/products'' (ProductData (newProductData bm cm (cs ! i))) # rs'"
    by blast
  show "requests wi = take (length (requests w) + i) (requests w')"
    using rs rs' by simp
  show "requests w' ! (length (requests w) + i) =
           Post ''/catalog/products'' (ProductData (newProductData bm cm (cs ! i)))"
    using rs rs' by (simp add: nth_append)
  show "length (requests w) + i < length (requests w')"
    using rs rs' by simp
qed

lemma createdAt_here:
  "createdAt api (h @ Post endpoint data # rs) (length h) =
     (case post api h endpoint data of Inr created \<Rightarrow> Some created | Inl _ \<Rightarrow> None)"
  by (simp add: createdAt_def)

lemma map_of_mapSet:
  "map_of (mapSet k v m) k' = Some d \<Longrightarrow> (k' = k \<and> d = v) \<or> map_of m k' = Some d"
  by (auto simp: mapSet_def update_conv' split: if_splits)

lemma keys_mapSet: "fst ` set (mapSet k v m) = insert k (fst ` set m)"
  by (simp add: mapSet_def dom_update)

lemma distinct_mapSet: "distinct (map fst m) \<Longrightarrow> distinct (map fst (mapSet k v m))"
  by (simp add: mapSet_def distinct_update)

lemma keys_mapSet_new: "k \<notin> fst ` set m \<Longrightarrow> map fst (mapSet k v m) = map fst m @ [k]"
  by (induction m) (auto simp: mapSet_def)

lemma values_mapSet: "snd ` set (mapSet k v m) \<subseteq> insert v (snd ` set m)"
  by (induction m) (auto simp: mapSet_def)

lemma categoryLoop_entries:
  "categoryLoop env cs m w = (Inr m', w') \<Longrightarrow> map_of m' k = Some d \<Longrightarrow>
   map_of m k = Some d \<or>
   (\<exists>j<length cs. rid (cs ! j) = k \<and>
      (\<exists>c. createdAt (destApi env) (requests w') (length (requests w) + j) = Some c \<and> rid c = d))"
proof (induction cs arbitrary: m w)
  case Nil
  then show ?case by simp
next
  case (Cons x cs)
  let ?d = "CategoryData (newCategoryData m x)"
  obtain r0 w0 where cr: "createResource env (destApi env) ''/catalog/categories'' ?d ''category'' w = (r0, w0)"
    by (cases "createResource env (destApi env) ''/catalog/categories'' ?d ''category'' w")
  from createResource_appended[OF cr] have len: "length (requests w0) = Suc (length (requests w))"
    by (auto simp: appended_def)
  from categoryLoop_first[OF Cons.prems(1)] obtain rs where
    tr: "requests w' = requests w @ Post ''/catalog/categories'' ?d # rs" by blast
  have shift: "\<exists>j<length (x # cs). rid ((x # cs) ! j) = k \<and>
      (\<exists>c. createdAt (destApi env) (requests w') (length (requests w) + j) = Some c \<and> rid c = d)"
    if "\<exists>j<length cs. rid (cs ! j) = k \<and>
      (\<exists>c. createdAt (destApi env) (requests w') (length (requests w0) + j) = Some c \<and> rid c = d)"
  proof -
    from that obtain j c where "j < length cs" "rid (cs ! j) = k"
      "createdAt (destApi env) (requests w') (length (requests w0) + j) = Some c" "rid c = d" by blast
    then show ?thesis
      by (intro exI[of _ "Suc j"]) (simp add: len)
  qed
  show ?case
  proof (cases r0)
    case (Inl e)
    with Cons.prems cr show ?thesis by (simp add: categoryLoop.simps)
  next
    case (Inr v)
    show ?thesis
    proof (cases v)
      case None
      with Inr Cons.prems cr have "categoryLoop env cs m w0 = (Inr m', w')"
        by (simp add: categoryLoop.simps)
      from Cons.IH[OF this Cons.prems(2)] shift show ?thesis by blast
    next
      case (Some created)
      with Inr Cons.prems cr have rest: "categoryLoop env cs (mapSet (rid x) (rid created) m) w0 = (Inr m', w')"
        by (simp add: categoryLoop.simps)
      from createResource_Some[OF cr[unfolded Inr Some]]
      have "createdAt (destApi env) (requests w') (length (requests w)) = Some created"
        unfolding tr createdAt_here by simp
      then have here: "k = rid x \<and> d = rid created \<Longrightarrow>
        \<exists>j<length (x # cs). rid ((x # cs) ! j) = k \<and>
          (\<exists>c. createdAt (destApi env) (requests w') (length (requests w) + j) = Some c \<and> rid c = d)"
        by (intro exI[of _ 0]) simp
      from Cons.IH[OF rest Cons.prems(2)] map_of_mapSet[of "rid x" "rid created" m k d] shift here
      show ?thesis by blast
    qed
  qed
qed

lemma categoryLoop_distinct:
  "categoryLoop env cs m w = (Inr m', w') \<Longrightarrow> distinct (map fst m) \<Longrightarrow> distinct (map fst m')"
proof (induction cs arbitrary: m w)
  case Nil
  then show ?case by simp
next
  case (Cons x cs)
  let ?d = "CategoryData (newCategoryData m x)"
  obtain r0 w0 where cr: "createResource env (destApi env) ''/catalog/categories'' ?d ''category'' w = (r0, w0)"
    by (cases "createResource env (destApi env) ''/catalog/categories'' ?d ''category'' w")
  show ?case
  proof (cases r0)
    case (Inl e)
    with Cons.prems cr show ?thesis by (simp add: categoryLoop.simps)
  next
    case (Inr v)
    show ?thesis
    proof (cases v)
      case None
      with Inr Cons.prems cr have "categoryLoop env cs m w0 = (Inr m', w')"
        by (simp add: categoryLoop.simps)
      from Cons.IH[OF this Cons.prems(2)] show ?thesis .
    next
      case (Some created)
      with Inr Cons.prems cr have "categoryLoop env cs (mapSet (rid x) (rid created) m) w0 = (Inr m', w')"
        by (simp add: categoryLoop.simps)
      from Cons.IH[OF this distinct_mapSet[OF Cons.prems(2)]] show ?thesis .
    qed
  qed
qed

lemma categoryLoop_values:
  "categoryLoop env cs m w = (Inr m', w') \<Longrightarrow>
   \<forall>h e d c. post (destApi env) h e d = Inr c \<longrightarrow> rid c \<noteq> 0 \<Longrightarrow>
   0 \<notin> snd ` set m \<Longrightarrow> 0 \<notin> snd ` set m'"
proof (induction cs arbitrary: m w)
  case Nil
  then show ?case by simp
next
  case (Cons x cs)
  let ?d = "CategoryData (newCategoryData m x)"
  obtain r0 w0 where cr: "createResource env (destApi env) ''/catalog/categories'' ?d ''category'' w = (r0, w0)"
    by (cases "createResource env (destApi env) ''/catalog/categories'' ?d ''category'' w")
  show ?case
  proof (cases r0)
    case (Inl e)
    with Cons.prems cr show ?thesis by (simp add: categoryLoop.simps)
  next
    case (Inr v)
    show ?thesis
    proof (cases v)
      case None
      with Inr Cons.prems cr have "categoryLoop env cs m w0 = (Inr m', w')"
        by (simp add: categoryLoop.simps)
      from Cons.IH[OF this Cons.prems(2,3)] show ?thesis .
    next
      case (Some created)
      with Inr Cons.prems cr have rest: "categoryLoop env cs (mapSet (rid x) (rid created) m) w0 = (Inr m', w')"
        by (simp add: categoryLoop.simps)
      from createResource_Some[OF cr[unfolded Inr Some]] Cons.prems(2) have "rid created \<noteq> 0"
        by blast
      with values_mapSet[of "rid x" "rid created" m] Cons.prems(3)
      have "0 \<notin> snd ` set (mapSet (rid x) (rid created) m)" by auto
      from Cons.IH[OF rest Cons.prems(2) this] show ?thesis .
    qed
  qed
qed

lemma brandLoop_entries:
  "brandLoop env cs m w = (Inr m', w') \<Longrightarrow> map_of m' k = Some d \<Longrightarrow>
   map_of m k = Some d \<or>
   (\<exists>j<length cs. rid (cs ! j) = k \<and>
      (\<exists>c. createdAt (destApi env) (requests w') (length (requests w) + j) = Some c \<and> rid c = d))"
proof (induction cs arbitrary: m w)
  case Nil
  then show ?case by simp
next
  case (Cons x cs)
  let ?d = "BrandData (rname x)"
  obtain r0 w0 where cr: "createResource env (destApi env) ''/catalog/brands'' ?d ''brand'' w = (r0, w0)"
    by (cases "createResource env (destApi env) ''/catalog/brands'' ?d ''brand'' w")
  from createResource_appended[OF cr] have len: "length (requests w0) = Suc (length (requests w))"
    by (auto simp: appended_def)
  from brandLoop_first[OF Cons.prems(1)] obtain rs where
    tr: "requests w' = requests w @ Post ''/catalog/brands'' ?d # rs" by blast
  have shift: "\<exists>j<length (x # cs). rid ((x # cs) ! j) = k \<and>
      (\<exists>c. createdAt (destApi env) (requests w') (length (requests w) + j) = Some c \<and> rid c = d)"
    if "\<exists>j<length cs. rid (cs ! j) = k \<and>
      (\<exists>c. createdAt (destApi env) (requests w') (length (requests w0) + j) = Some c \<and> rid c = d)"
  proof -
    from that obtain j c where "j < length cs" "rid (cs ! j) = k"
      "createdAt (destApi env) (requests w') (length (requests w0) + j) = Some c" "rid c = d" by blast
    then show ?thesis
      by (intro exI[of _ "Suc j"]) (simp add: len)
  qed
  show ?case
  proof (cases r0)
    case (Inl e)
    with Cons.prems cr show ?thesis by (simp add: brandLoop.simps)
  next
    case (Inr v)
    show ?thesis
    proof (cases v)
      case None
      with Inr Cons.prems cr have "brandLoop env cs m w0 = (Inr m', w')"
        by (simp add: brandLoop.simps)
      from Cons.IH[OF this Cons.prems(2)] shift show ?thesis by blast
    next
      case (Some created)
      with Inr Cons.prems cr have rest: "brandLoop env cs (mapSet (rid x) (rid created) m) w0 = (Inr m', w')"
        by (simp add: brandLoop.simps)
      from createResource_Some[OF cr[unfolded Inr Some]]
      have "createdAt (destApi env) (requests w') (length (requests w)) = Some created"
        unfolding tr createdAt_here by simp
      then have here: "k = rid x \<and> d = rid created \<Longrightarrow>
        \<exists>j<length (x # cs). rid ((x # cs) ! j) = k \<and>
          (\<exists>c. createdAt (destApi env) (requests w') (length (requests w) + j) = Some c \<and> rid c = d)"
        by (intro exI[of _ 0]) simp
      from Cons.IH[OF rest Cons.prems(2)] map_of_mapSet[of "rid x" "rid created" m k d] shift here
      show ?thesis by blast
    qed
  qed
qed

lemma brandLoop_distinct:
  "brandLoop env cs m w = (Inr m', w') \<Longrightarrow> distinct (map fst m) \<Longrightarrow> distinct (map fst m')"
proof (induction cs arbitrary: m w)
  case Nil
  then show ?case by simp
next
  case (Cons x cs)
  let ?d = "BrandData (rname x)"
  obtain r0 w0 where cr: "createResource env (destApi env) ''/catalog/brands'' ?d ''brand'' w = (r0, w0)"
    by (cases "createResource env (destApi env) ''/catalog/brands'' ?d ''brand'' w")
  show ?case
  proof (cases r0)
    case (Inl e)
    with Cons.prems cr show ?thesis by (simp add: brandLoop.simps)
  next
    case (Inr v)
    show ?thesis
    proof (cases v)
      case None
      with Inr Cons.prems cr have "brandLoop env cs m w0 = (Inr m', w')"
        by (simp add: brandLoop.simps)
      from Cons.IH[OF this Cons.prems(2)] show ?thesis .
    next
      case (Some created)
      with Inr Cons.prems cr have "brandLoop env cs (mapSet (rid x) (rid created) m) w0 = (Inr m', w')"
        by (simp add: brandLoop.simps)
      from Cons.IH[OF this distinct_mapSet[OF Cons.prems(2)]] show ?thesis .
    qed
  qed
qed

lemma brandLoop_values:
  "brandLoop env cs m w = (Inr m', w') \<Longrightarrow>
   \<forall>h e d c. post (destApi env) h e d = Inr c \<longrightarrow> rid c \<noteq> 0 \<Longrightarrow>
   0 \<notin> snd ` set m \<Longrightarrow> 0 \<notin> snd ` set m'"
proof (induction cs arbitrary: m w)
  case Nil
  then show ?case by simp
next
  case (Cons x cs)
  let ?d = "BrandData (rname x)"
  obtain r0 w0 where cr: "createResource env (destApi env) ''/catalog/brands'' ?d ''brand'' w = (r0, w0)"
    by (cases "createResource env (destApi env) ''/catalog/brands'' ?d ''brand'' w")
  show ?case
  proof (cases r0)
    case (Inl e)
    with Cons.prems cr show ?thesis by (simp add: brandLoop.simps)
  next
    case (Inr v)
    show ?thesis
    proof (cases v)
      case None
      with Inr Cons.prems cr have "brandLoop env cs m w0 = (Inr m', w')"
        by (simp add: brandLoop.simps)
      from Cons.IH[OF this Cons.prems(2,3)] show ?thesis .
    next
      case (Some created)
      with Inr Cons.prems cr have rest: "brandLoop env cs (mapSet (rid x) (rid created) m) w0 = (Inr m', w')"
        by (simp add: brandLoop.simps)
      from createResource_Some[OF cr[unfolded Inr Some]] Cons.prems(2) have "rid created \<noteq> 0"
        by blast
      with values_mapSet[of "rid x" "rid created" m] Cons.prems(3)
      have "0 \<notin> snd ` set (mapSet (rid x) (rid created) m)" by auto
      from Cons.IH[OF rest Cons.prems(2) this] show ?thesis .
    qed
  qed
qed

lemma categoryLoop_keys:
  assumes "categoryLoop env cs m w = (Inr m', w')"
  shows "fst ` set m' \<subseteq> fst ` set m \<union> rid ` set cs"
proof
  fix k assume "k \<in> fst ` set m'"
  then obtain d where "map_of m' k = Some d"
    by (metis domD dom_map_of_conv_image_fst)
  from categoryLoop_entries[OF assms this] show "k \<in> fst ` set m \<union> rid ` set cs"
    by (auto dest: map_of_SomeD intro: rev_image_eqI)
qed

lemma categoryLoop_step:
  assumes "accepts env"
  shows "categoryLoop env (c # rest) m w =
     categoryLoop env rest
       (case post (destApi env) (requests w) ''/catalog/categories'' (CategoryData (newCategoryData m c)) of
          Inr created \<Rightarrow> mapSet (rid c) (rid created) m
        | Inl _ \<Rightarrow> m)
       (posted env ''/catalog/categories'' (CategoryData (newCategoryData m c)) ''category'' w)"
  by (simp add: createResource_eq[OF assms] split: sum.splits)

lemma categoryLoop_returns:
  assumes "accepts env"
  shows "\<exists>m' w'. categoryLoop env cs m w = (Inr m', w')"
proof (induction cs arbitrary: m w)
  case Nil
  show ?case by simp
next
  case (Cons c cs)
  show ?case unfolding categoryLoop_step[OF assms] by (rule Cons.IH)
qed

lemma categoryLoop_length:
  assumes "categoryLoop env cs m w = (Inr m', w')"
  shows "length (requests w') = length (requests w) + length cs"
  using categoryLoop_appended[OF assms] by (auto simp: appended_def)

lemma categoryLoop_names:
  "categoryLoop env cs m w = (Inr m', w') \<Longrightarrow> i < length cs \<Longrightarrow>
   \<exists>data. requests w' ! (length (requests w) + i) = Post ''/catalog/categories'' data \<and>
          name data = rname (cs ! i)"
proof (induction cs arbitrary: m w i)
  case Nil
  then show ?case by simp
next
  case (Cons x cs)
  let ?d = "CategoryData (newCategoryData m x)"
  show ?case
  proof (cases i)
    case 0
    from categoryLoop_first[OF Cons.prems(1)] show ?thesis
      unfolding 0 by (auto simp: newCategoryData_def)
  next
    case (Suc j)
    obtain r0 w0 where cr: "createResource env (destApi env) ''/catalog/categories'' ?d ''category'' w = (r0, w0)"
      by (cases "createResource env (destApi env) ''/catalog/categories'' ?d ''category'' w")
    from createResource_appended[OF cr] have len: "length (requests w0) = Suc (length (requests w))"
      by (auto simp: appended_def)
    from Cons.prems(1) cr obtain m0 where "categoryLoop env cs m0 w0 = (Inr m', w')"
      by (auto simp: categoryLoop.simps split: sum.splits option.splits)
    from Cons.IH[OF this, of j] Cons.prems(2) show ?thesis
      unfolding Suc by (simp add: len)
  qed
qed

lemma created_confirmed:
  "createdAt api trace n = Some c \<Longrightarrow> confirmed api trace n"
  by (auto simp: createdAt_def confirmed_def split: request.splits sum.splits)

lemma confirmedItems_member:
  "j < length items \<Longrightarrow> confirmed api trace (n + j) \<Longrightarrow> items ! j \<in> set (confirmedItems api trace n items)"
  by (auto simp: confirmedItems_def)

lemma categoryLoop_only_confirmed:
  assumes "categoryLoop env cs [] w = (Inr m', w')"
  shows "fst ` set m' \<subseteq> rid ` set (confirmedItems (destApi env) (requests w') (length (requests w)) cs)"
proof
  fix k assume "k \<in> fst ` set m'"
  then obtain d where "map_of m' k = Some d"
    by (metis domD dom_map_of_conv_image_fst)
  from categoryLoop_entries[OF assms this] obtain j c where
    j: "j < length cs" "rid (cs ! j) = k"
       "createdAt (destApi env) (requests w') (length (requests w) + j) = Some c"
    by auto
  from confirmedItems_member[OF j(1) created_confirmed[OF j(3)]] j(2)
  show "k \<in> rid ` set (confirmedItems (destApi env) (requests w') (length (requests w)) cs)"
    by (auto intro: rev_image_eqI)
qed

lemma confirmedItems_Nil [simp]: "confirmedItems api trace n [] = []"
  by (simp add: confirmedItems_def)

lemma confirmedItems_Cons:
  "confirmedItems api trace n (x # xs) =
     (if confirmed api trace n then [x] else []) @ confirmedItems api trace (Suc n) xs"
proof -
  have "[0..<length (x # xs)] = 0 # map Suc [0..<length xs]"
    by (simp add: upt_conv_Cons map_Suc_upt del: upt_Suc)
  then show ?thesis
    by (simp add: confirmedItems_def filter_map o_def del: upt_Suc)
qed

lemma confirmed_here:
  "confirmed api (h @ Post endpoint data # rs) (length h) = (\<not> isl (post api h endpoint data))"
  by (simp add: confirmed_def)

lemma categoryLoop_recorded:
  assumes acc: "accepts env"
  shows "categoryLoop env cs m w = (Inr m', w') \<Longrightarrow>
     fst ` set m' =
       fst ` set m \<union> rid ` set (confirmedItems (destApi env) (requests w') (length (requests w)) cs) \<and>
     (distinct (map fst m @ map rid cs) \<longrightarrow>
        map fst m' = map fst m @
          map rid (confirmedItems (destApi env) (requests w') (length (requests w)) cs))"
proof (induction cs arbitrary: m w)
  case Nil
  then show ?case by simp
next
  case (Cons c cs)
  let ?d = "CategoryData (newCategoryData m c)"
  let ?rep = "post (destApi env) (requests w) ''/catalog/categories'' ?d"
  let ?w1 = "posted env ''/catalog/categories'' ?d ''category'' w"
  let ?m1 = "case ?rep of Inr created \<Rightarrow> mapSet (rid c) (rid created) m | Inl _ \<Rightarrow> m"
  let ?rest = "confirmedItems (destApi env) (requests w') (Suc (length (requests w))) cs"
  from Cons.prems have rest: "categoryLoop env cs ?m1 ?w1 = (Inr m', w')"
    unfolding categoryLoop_step[OF acc] .
  from categoryLoop_first[OF Cons.prems] obtain rs where
    rs: "requests w' = requests w @ Post ''/catalog/categories'' ?d # rs" by auto
  have here: "confirmed (destApi env) (requests w') (length (requests w)) = (\<not> isl ?rep)"
    unfolding rs by (rule confirmed_here)
  have len: "length (requests ?w1) = Suc (length (requests w))" by simp
  from Cons.IH[OF rest, unfolded len]
  have ih1: "fst ` set m' = fst ` set ?m1 \<union> rid ` set ?rest"
    and ih3: "distinct (map fst ?m1 @ map rid cs) \<longrightarrow> map fst m' = map fst ?m1 @ map rid ?rest"
    by blast+
  have a: "fst ` set m' =
       fst ` set m \<union> rid ` set (confirmedItems (destApi env) (requests w') (length (requests w)) (c # cs))"
    unfolding confirmedItems_Cons here ih1
    by (cases ?rep) (auto simp: keys_mapSet)
  have c: "distinct (map fst m @ map rid (c # cs)) \<longrightarrow>
        map fst m' = map fst m @
          map rid (confirmedItems (destApi env) (requests w') (length (requests w)) (c # cs))"
  proof
    assume d: "distinct (map fst m @ map rid (c # cs))"
    then have new: "rid c \<notin> fst ` set m" by auto
    have d1: "distinct (map fst ?m1 @ map rid cs)"
      using d new by (cases ?rep) (auto simp: keys_mapSet_new)
    with ih3 have "map fst m' = map fst ?m1 @ map rid ?rest"
      by blast
    then show "map fst m' = map fst m @
          map rid (confirmedItems (destApi env) (requests w') (length (requests w)) (c # cs))"
      unfolding confirmedItems_Cons here
      using new by (cases ?rep) (auto simp: keys_mapSet_new)
  qed
  from a c show ?case by blast
qed

lemma brandLoop_step:
  assumes "accepts env"
  shows "brandLoop env (c # rest) m w =
     brandLoop env rest
       (case post (destApi env) (requests w) ''/catalog/brands'' (BrandData (rname c)) of
          Inr created \<Rightarrow> mapSet (rid c) (rid created) m
        | Inl _ \<Rightarrow> m)
       (posted env ''/catalog/brands'' (BrandData (rname c)) ''brand'' w)"
  by (simp add: createResource_eq[OF assms] split: sum.splits)

lemma brandLoop_returns:
  assumes "accepts env"
  shows "\<exists>m' w'. brandLoop env cs m w = (Inr m', w')"
proof (induction cs arbitrary: m w)
  case Nil
  show ?case by simp
next
  case (Cons c cs)
  show ?case unfolding brandLoop_step[OF assms] by (rule Cons.IH)
qed

lemma brandLoop_length:
  assumes "brandLoop env cs m w = (Inr m', w')"
  shows "length (requests w') = length (requests w) + length cs"
  using brandLoop_appended[OF assms] by (auto simp: appended_def)

lemma brandLoop_names:
  "brandLoop env cs m w = (Inr m', w') \<Longrightarrow> i < length cs \<Longrightarrow>
   \<exists>data. requests w' ! (length (requests w) + i) = Post ''/catalog/brands'' data \<and>
          name data = rname (cs ! i)"
proof (induction cs arbitrary: m w i)
  case Nil
  then show ?case by simp
next
  case (Cons x cs)
  let ?d = "BrandData (rname x)"
  show ?case
  proof (cases i)
    case 0
    from brandLoop_first[OF Cons.prems(1)] show ?thesis
      unfolding 0 by auto
  next
    case (Suc j)
    obtain r0 w0 where cr: "createResource env (destApi env) ''/catalog/brands'' ?d ''brand'' w = (r0, w0)"
      by (cases "createResource env (destApi env) ''/catalog/brands'' ?d ''brand'' w")
    from createResource_appended[OF cr] have len: "length (requests w0) = Suc (length (requests w))"
      by (auto simp: appended_def)
    from Cons.prems(1) cr obtain m0 where "brandLoop env cs m0 w0 = (Inr m', w')"
      by (auto simp: brandLoop.simps split: sum.splits option.splits)
    from Cons.IH[OF this, of j] Cons.prems(2) show ?thesis
      unfolding Suc by (simp add: len)
  qed
qed

lemma brandLoop_only_confirmed:
  assumes "brandLoop env cs [] w = (Inr m', w')"
  shows "fst ` set m' \<subseteq> rid ` set (confirmedItems (destApi env) (requests w') (length (requests w)) cs)"
proof
  fix k assume "k \<in> fst ` set m'"
  then obtain d where "map_of m' k = Some d"
    by (metis domD dom_map_of_conv_image_fst)
  from brandLoop_entries[OF assms this] obtain j c where
    j: "j < length cs" "rid (cs ! j) = k"
       "createdAt (destApi env) (requests w') (length (requests w) + j) = Some c"
    by auto
  from confirmedItems_member[OF j(1) created_confirmed[OF j(3)]] j(2)
  show "k \<in> rid ` set (confirmedItems (destApi env) (requests w') (length (requests w)) cs)"
    by (auto intro: rev_image_eqI)
qed

lemma brandLoop_recorded:
  assumes acc: "accepts env"
  shows "brandLoop env cs m w = (Inr m', w') \<Longrightarrow>
     fst ` set m' =
       fst ` set m \<union> rid ` set (confirmedItems (destApi env) (requests w') (length (requests w)) cs) \<and>
     (distinct (map fst m @ map rid cs) \<longrightarrow>
        map fst m' = map fst m @
          map rid (confirmedItems (destApi env) (requests w') (length (requests w)) cs))"
proof (induction cs arbitrary: m w)
  case Nil
  then show ?case by simp
next
  case (Cons c cs)
  let ?d = "BrandData (rname c)"
  let ?rep = "post (destApi env) (requests w) ''/catalog/brands'' ?d"
  let ?w1 = "posted env ''/catalog/brands'' ?d ''brand'' w"
  let ?m1 = "case ?rep of Inr created \<Rightarrow> mapSet (rid c) (rid created) m | Inl _ \<Rightarrow> m"
  let ?rest = "confirmedItems (destApi env) (requests w') (Suc (length (requests w))) cs"
  from Cons.prems have rest: "brandLoop env cs ?m1 ?w1 = (Inr m', w')"
    unfolding brandLoop_step[OF acc] .
  from brandLoop_first[OF Cons.prems] obtain rs where
    rs: "requests w' = requests w @ Post ''/catalog/brands'' ?d # rs" by auto
  have here: "confirmed (destApi env) (requests w') (length (requests w)) = (\<not> isl ?rep)"
    unfolding rs by (rule confirmed_here)
  have len: "length (requests ?w1) = Suc (length (requests w))" by simp
  from Cons.IH[OF rest, unfolded len]
  have ih1: "fst ` set m' = fst ` set ?m1 \<union> rid ` set ?rest"
    and ih3: "distinct (map fst ?m1 @ map rid cs) \<longrightarrow> map fst m' = map fst ?m1 @ map rid ?rest"
    by blast+
  have a: "fst ` set m' =
       fst ` set m \<union> rid ` set (confirmedItems (destApi env) (requests w') (length (requests w)) (c # cs))"
    unfolding confirmedItems_Cons here ih1
    by (cases ?rep) (auto simp: keys_mapSet)
  have c: "distinct (map fst m @ map rid (c # cs)) \<longrightarrow>
        map fst m' = map fst m @
          map rid (confirmedItems (destApi env) (requests w') (length (requests w)) (c # cs))"
  proof
    assume d: "distinct (map fst m @ map rid (c # cs))"
    then have new: "rid c \<notin> fst ` set m" by auto
    have d1: "distinct (map fst ?m1 @ map rid cs)"
      using d new by (cases ?rep) (auto simp: keys_mapSet_new)
    with ih3 have "map fst m' = map fst ?m1 @ map rid ?rest"
      by blast
    then show "map fst m' = map fst m @
          map rid (confirmedItems (destApi env) (requests w') (length (requests w)) (c # cs))"
      unfolding confirmedItems_Cons here
      using new by (cases ?rep) (auto simp: keys_mapSet_new)
  qed
  from a c show ?case by blast
qed

lemma productLoop_step:
  assumes "accepts env"
  shows "productLoop env (p # rest) bm cm w =
     productLoop env rest bm cm
       (posted env ''/catalog/products'' (ProductData (newProductData bm cm p)) ''product'' w)"
  by (simp add: createResource_eq[OF assms] split: sum.splits)

lemma productLoop_returns:
  assumes "accepts env"
  shows "\<exists>w'. productLoop env ps bm cm w = (Inr (), w')"
proof (induction ps arbitrary: w)
  case Nil
  show ?case by simp
next
  case (Cons p ps)
  show ?case unfolding productLoop_step[OF assms] by (rule Cons.IH)
qed

lemma productLoop_length:
  assumes "productLoop env ps bm cm w = (Inr u, w')"
  shows "length (requests w') = length (requests w) + length ps"
  using productLoop_appended[OF assms] by (auto simp: appended_def)

lemma brandLoop_requests:
  "brandLoop env bs m w = (Inr m', w') \<Longrightarrow>
   requests w' = requests w @ map (\<lambda>b. Post ''/catalog/brands'' (BrandData (rname b))) bs"
proof (induction bs arbitrary: m w)
  case Nil
  then show ?case by simp
next
  case (Cons x bs)
  let ?d = "BrandData (rname x)"
  obtain r0 w0 where cr: "createResource env (destApi env) ''/catalog/brands'' ?d ''brand'' w = (r0, w0)"
    by (cases "createResource env (destApi env) ''/catalog/brands'' ?d ''brand'' w")
  from createResource_appended[OF cr] have tr: "requests w0 = requests w @ [Post ''/catalog/brands'' ?d]"
    by (auto simp: appended_def)
  from Cons.prems cr obtain m0 where "brandLoop env bs m0 w0 = (Inr m', w')"
    by (auto simp: brandLoop.simps split: sum.splits option.splits)
  from Cons.IH[OF this] show ?case by (simp add: tr)
qed

lemma migrateBrands_loop:
  assumes "fetchAllResources env (sourceApi env) ''/catalog/brands'' w = Some (Inr brands, w1)"
  shows "migrateBrands env w = Some (brandLoop env brands [] w1)"
  using assms by (simp add: migrateBrands_def)

lemma migrateCategories_loop:
  assumes "fetchAllResources env (sourceApi env) ''/catalog/categories'' w = Some (Inr fetched, w1)"
  shows "migrateCategories env w = Some (categoryLoop env (jsSort compareParent fetched) [] w1)"
  using assms by (simp add: migrateCategories_def)

lemma migrateProducts_loop:
  assumes "fetchAllResources env (sourceApi env) ''/catalog/products'' w = Some (Inr products, w1)"
  shows "migrateProducts env bm cm w = Some (productLoop env products bm cm w1)"
  using assms by (simp add: migrateProducts_def)

lemma jsInsert_insort: "jsInsert compareParent x ys = insort_key parentKey x ys"
  by (induction ys) (auto simp: compareParent_def)

lemma jsSort_sort_key: "jsSort compareParent xs = sort_key parentKey xs"
  by (induction xs) (simp_all add: jsInsert_insort)

lemma parentKey_eq: "parentKey c = (case parent_id c of None \<Rightarrow> 0 | Some p \<Rightarrow> p)"
  by (simp add: parentKey_def orZero_def truthy_def split: option.splits)

lemma length_jsSort: "length (jsSort compareParent xs) = length xs"
  by (simp add: jsSort_sort_key)

lemma newCategoryData_eq:
  "newCategoryData m c =
     \<lparr>cd_name = rname c,
      cd_parent_id = (case mapGet m (parent_id c) of None \<Rightarrow> 0 | Some d \<Rightarrow> d)\<rparr>"
  by (simp add: newCategoryData_def orZero_def truthy_def split: option.splits)

declare brandLoop.simps(2) [simp del]
declare categoryLoop.simps(2) [simp del]
declare productLoop.simps(2) [simp del]


lemma accepts_example [simp]: "accepts exampleEnv"
  by (simp add: accepts_def exampleEnv_def)

subsection \<open>The order of the categories\<close>



text \<open>
  C8. A category whose parent has no entry in the category map when the loop reaches it,
  in particular one whose parent is not an identifier of the source set, is not dropped:
  the creation request for it is sent, with \<open>parent_id\<close> 0. When the log file takes every
  entry the stage returns its map.
\<close>

theorem unmapped_parent_at_root:
  assumes fetch: "fetchAllResources env (sourceApi env) ''/catalog/categories'' w = Some (Inr fetched, w1)"
    and i: "i < length fetched"
    and pre: "categoryLoop env (take i (jsSort compareParent fetched)) [] w1 = (Inr mi, wi)"
    and unmapped: "mapGet mi (parent_id (jsSort compareParent fetched ! i)) = None \<or>
                   (\<exists>p. parent_id (jsSort compareParent fetched ! i) = Some p \<and> p \<notin> rid ` set fetched)"
  shows "\<exists>r w'.
     migrateCategories env w = Some (r, w') \<and>
     length (requests w1) + i < length (requests w') \<and>
     requests w' ! (length (requests w1) + i) =
       Post ''/catalog/categories''
         (CategoryData \<lparr>cd_name = rname (jsSort compareParent fetched ! i), cd_parent_id = 0\<rparr>) \<and>
     (accepts env \<longrightarrow> (\<exists>categoryMap. r = Inr categoryMap))"
proof -
  let ?cs = "jsSort compareParent fetched"
  have i': "i < length ?cs" using i by (simp add: length_jsSort)
  obtain r w' where run: "categoryLoop env ?cs [] w1 = (r, w')"
    by (cases "categoryLoop env ?cs [] w1")
  have mig: "migrateCategories env w = Some (r, w')"
    using migrateCategories_loop[OF fetch] run by simp
  have none: "mapGet mi (parent_id (?cs ! i)) = None"
    using unmapped
  proof
    assume "mapGet mi (parent_id (?cs ! i)) = None"
    then show ?thesis .
  next
    assume "\<exists>p. parent_id (?cs ! i) = Some p \<and> p \<notin> rid ` set fetched"
    then obtain p where p: "parent_id (?cs ! i) = Some p" "p \<notin> rid ` set fetched" by blast
    have "set (take i ?cs) \<subseteq> set fetched"
      using set_take_subset[of i ?cs] by (simp add: jsSort_sort_key)
    with categoryLoop_keys[OF pre] p(2) have "p \<notin> fst ` set mi" by auto
    then have "map_of mi p = None"
      by (simp add: map_of_eq_None_iff)
    with p(1) show ?thesis by (simp add: mapGet_def)
  qed
  have "requests w' ! (length (requests w1) + i) =
       Post ''/catalog/categories'' (CategoryData (newCategoryData mi (?cs ! i)))"
    by (rule categoryLoop_nth(2)[OF i' pre run])
  moreover have "length (requests w1) + i < length (requests w')"
    by (rule categoryLoop_nth(3)[OF i' pre run])
  moreover have "accepts env \<longrightarrow> (\<exists>categoryMap. r = Inr categoryMap)"
    using categoryLoop_returns[of env ?cs "[]" w1] run by auto
  ultimately show ?thesis
    using mig none by (auto simp: newCategoryData_eq)
qed

theorem unmapped_parent_at_root_witness:
  "jsSort compareParent [(mkResource 4 ''Lost'')\<lparr>parent_id := Some 9\<rparr>, mkResource 1 ''Garden''] ! 1 =
     (mkResource 4 ''Lost'')\<lparr>parent_id := Some 9\<rparr> \<and>
   (\<exists>categoryMap w'.
      migrateCategories orphanEnv freshWorld = Some (Inr categoryMap, w') \<and>
      requests w' ! 2 =
        Post ''/catalog/categories'' (CategoryData \<lparr>cd_name = ''Lost'', cd_parent_id = 0\<rparr>))"
proof -
  let ?fetched = "[(mkResource 4 ''Lost'')\<lparr>parent_id := Some 9\<rparr>, mkResource 1 ''Garden'']"
  let ?w1 = "freshWorld\<lparr>requests := [Get ''/catalog/categories'' 1 250]\<rparr>"
  have acc: "accepts orphanEnv"
    by (simp add: accepts_def orphanEnv_def exampleEnv_def)
  have fetch: "fetchAllResources orphanEnv (sourceApi orphanEnv) ''/catalog/categories'' freshWorld =
      Some (Inr ?fetched, ?w1)"
    by (simp add: fetchAllResources_def fetchLoop.simps orphanEnv_def orphanSource_def limit_def
        freshWorld_def)
  have sorted: "jsSort compareParent ?fetched = [mkResource 1 ''Garden'', (mkResource 4 ''Lost'')\<lparr>parent_id := Some 9\<rparr>]"
    by (simp add: compareParent_def parentKey_eq mkResource_def)
  have i: "1 < length ?fetched" by simp
  obtain mi wi where pre: "categoryLoop orphanEnv (take 1 (jsSort compareParent ?fetched)) [] ?w1 = (Inr mi, wi)"
    using categoryLoop_returns[OF acc] by blast
  have orphan: "mapGet mi (parent_id (jsSort compareParent ?fetched ! 1)) = None \<or>
      (\<exists>p. parent_id (jsSort compareParent ?fetched ! 1) = Some p \<and> p \<notin> rid ` set ?fetched)"
    unfolding sorted by (simp add: mkResource_def)
  from unmapped_parent_at_root[OF fetch i pre orphan] acc
  show ?thesis
    unfolding sorted by (auto simp: freshWorld_def mkResource_def numeral_2_eq_2)
qed

subsection \<open>The identifier maps\<close>

lemma exampleBrands:
  "fetchAllResources exampleEnv (sourceApi exampleEnv) ''/catalog/brands'' freshWorld =
     Some (Inr [mkResource 1 ''Acme'', mkResource 2 ''Bolt''],
           freshWorld\<lparr>requests := [Get ''/catalog/brands'' 1 250]\<rparr>)"
  by (simp add: fetchAllResources_def fetchLoop.simps exampleEnv_def exampleSource_def limit_def
      freshWorld_def)

text \<open>
  C6, as stated, fails when a write to the log file is rejected after the destination
  has confirmed a creation. The file system rejects the first line, \<open>Created brand: Acme\<close>:
  the \<open>catch\<close> block of \<open>createResource\<close> logs a failure and returns \<open>null\<close>, and the
  stage returns a map without a key for the brand the destination created.
\<close>

theorem confirmed_brand_without_key:
  "map_option fst (migrateBrands flakyDiskEnv freshWorld) = Some (Inr []) \<and>
   map_option (requests \<circ> snd) (migrateBrands flakyDiskEnv freshWorld) =
     Some [Get ''/catalog/brands'' 1 250,
           Post ''/catalog/brands'' (BrandData ''Acme''),
           Post ''/catalog/brands'' (BrandData ''Bolt'')] \<and>
   map_option (logs \<circ> snd) (migrateBrands flakyDiskEnv freshWorld) =
     Some [''2026-01-01T01:00:00.000Z: Created brand: Acme'' @ [CHR 0x0A],
           ''2026-01-01T01:00:00.000Z: Failed to create brand Acme: EBUSY: resource busy or locked, open migration.log'' @ [CHR 0x0A],
           ''2026-01-01T01:00:00.000Z: Failed to create brand Bolt: Duplicate brand'' @ [CHR 0x0A]] \<and>
   confirmedItems (destApi flakyDiskEnv)
     [Get ''/catalog/brands'' 1 250,
      Post ''/catalog/brands'' (BrandData ''Acme''),
      Post ''/catalog/brands'' (BrandData ''Bolt'')] 1
     [mkResource 1 ''Acme'', mkResource 2 ''Bolt''] = [mkResource 1 ''Acme'']"
proof -
  have upt: "[0..<(2::nat)] = [0, Suc 0]"
    by (simp add: upt_rec)
  have run: "migrateBrands flakyDiskEnv freshWorld =
      Some (brandLoop flakyDiskEnv [mkResource 1 ''Acme'', mkResource 2 ''Bolt''] []
              (freshWorld\<lparr>requests := [Get ''/catalog/brands'' 1 250]\<rparr>))"
    by (simp add: migrateBrands_def fetchAllResources_def fetchLoop.simps flakyDiskEnv_def
        exampleEnv_def exampleSource_def limit_def freshWorld_def)
  have loop: "brandLoop flakyDiskEnv [mkResource 1 ''Acme'', mkResource 2 ''Bolt''] []
              (freshWorld\<lparr>requests := [Get ''/catalog/brands'' 1 250]\<rparr>) =
      (Inr [],
       freshWorld
        \<lparr>logs := [''2026-01-01T01:00:00.000Z: Created brand: Acme'' @ [CHR 0x0A],
                  ''2026-01-01T01:00:00.000Z: Failed to create brand Acme: EBUSY: resource busy or locked, open migration.log'' @ [CHR 0x0A],
                  ''2026-01-01T01:00:00.000Z: Failed to create brand Bolt: Duplicate brand'' @ [CHR 0x0A]],
         logFile := [''2026-01-01T01:00:00.000Z: Failed to create brand Acme: EBUSY: resource busy or locked, open migration.log'' @ [CHR 0x0A],
                     ''2026-01-01T01:00:00.000Z: Failed to create brand Bolt: Duplicate brand'' @ [CHR 0x0A]],
         console := [''2026-01-01T01:00:00.000Z: Created brand: Acme'' @ [CHR 0x0A],
                  ''2026-01-01T01:00:00.000Z: Failed to create brand Acme: EBUSY: resource busy or locked, open migration.log'' @ [CHR 0x0A],
                  ''2026-01-01T01:00:00.000Z: Failed to create brand Bolt: Duplicate brand'' @ [CHR 0x0A]],
         ticks := 3,
         attempts := [''2026-01-01T01:00:00.000Z: Created brand: Acme'' @ [CHR 0x0A],
                  ''2026-01-01T01:00:00.000Z: Failed to create brand Acme: EBUSY: resource busy or locked, open migration.log'' @ [CHR 0x0A],
                  ''2026-01-01T01:00:00.000Z: Failed to create brand Bolt: Duplicate brand'' @ [CHR 0x0A]],
         requests := [Get ''/catalog/brands'' 1 250,
                      Post ''/catalog/brands'' (BrandData ''Acme''),
                      Post ''/catalog/brands'' (BrandData ''Bolt'')]\<rparr>)"
    by (simp add: brandLoop.simps createResource_def log_def Let_def logMessage_def newline_def
        errorDetail_def flakyDiskEnv_def exampleEnv_def exampleDest_def freshWorld_def
        mkResource_def)
  have conf: "confirmedItems (destApi flakyDiskEnv)
     [Get ''/catalog/brands'' 1 250,
      Post ''/catalog/brands'' (BrandData ''Acme''),
      Post ''/catalog/brands'' (BrandData ''Bolt'')] 1
     [mkResource 1 ''Acme'', mkResource 2 ''Bolt''] = [mkResource 1 ''Acme'']"
    by (simp add: confirmedItems_def confirmed_def flakyDiskEnv_def exampleEnv_def
        exampleDest_def upt numeral_2_eq_2)
  show ?thesis
    unfolding run loop using conf by (simp add: freshWorld_def)
qed

lemma brands_recorded:
  assumes fetch: "fetchAllResources env (sourceApi env) ''/catalog/brands'' w = Some (Inr brands, w1)"
  shows "(\<exists>r w'.
         migrateBrands env w = Some (r, w') \<and>
         (\<forall>brandMap. r = Inr brandMap \<longrightarrow>
            length (requests w') = length (requests w1) + length brands \<and>
            (\<forall>i<length brands. \<exists>data.
               requests w' ! (length (requests w1) + i) = Post ''/catalog/brands'' data \<and>
               name data = rname (brands ! i)) \<and>
            distinct (map fst brandMap) \<and>
            fst ` set brandMap \<subseteq>
              rid ` set (confirmedItems (destApi env) (requests w') (length (requests w1)) brands)) \<and>
         (accepts env \<longrightarrow>
            (\<exists>brandMap. r = Inr brandMap \<and>
               fst ` set brandMap =
                 rid ` set (confirmedItems (destApi env) (requests w') (length (requests w1)) brands) \<and>
               (distinct (map rid brands) \<longrightarrow>
                  map fst brandMap =
                    map rid (confirmedItems (destApi env) (requests w') (length (requests w1)) brands)))))"
proof -
  obtain r w' where run: "brandLoop env brands [] w1 = (r, w')"
    by (cases "brandLoop env brands [] w1")
  have mig: "migrateBrands env w = Some (r, w')"
    using migrateBrands_loop[OF fetch] run by simp
  have general: "\<forall>brandMap. r = Inr brandMap \<longrightarrow>
            length (requests w') = length (requests w1) + length brands \<and>
            (\<forall>i<length brands. \<exists>data.
               requests w' ! (length (requests w1) + i) = Post ''/catalog/brands'' data \<and>
               name data = rname (brands ! i)) \<and>
            distinct (map fst brandMap) \<and>
            fst ` set brandMap \<subseteq>
              rid ` set (confirmedItems (destApi env) (requests w') (length (requests w1)) brands)"
  proof (intro allI impI)
    fix brandMap assume "r = Inr brandMap"
    with run have run': "brandLoop env brands [] w1 = (Inr brandMap, w')" by simp
    have "distinct (map fst brandMap)"
      using brandLoop_distinct[OF run'] by simp
    with brandLoop_length[OF run'] brandLoop_names[OF run'] brandLoop_only_confirmed[OF run']
    show "length (requests w') = length (requests w1) + length brands \<and>
            (\<forall>i<length brands. \<exists>data.
               requests w' ! (length (requests w1) + i) = Post ''/catalog/brands'' data \<and>
               name data = rname (brands ! i)) \<and>
            distinct (map fst brandMap) \<and>
            fst ` set brandMap \<subseteq>
              rid ` set (confirmedItems (destApi env) (requests w') (length (requests w1)) brands)"
      by blast
  qed
  have accepted: "accepts env \<longrightarrow>
            (\<exists>brandMap. r = Inr brandMap \<and>
               fst ` set brandMap =
                 rid ` set (confirmedItems (destApi env) (requests w') (length (requests w1)) brands) \<and>
               (distinct (map rid brands) \<longrightarrow>
                  map fst brandMap =
                    map rid (confirmedItems (destApi env) (requests w') (length (requests w1)) brands)))"
  proof
    assume acc: "accepts env"
    from brandLoop_returns[OF acc, of brands "[]" w1] run obtain brandMap where
      run': "brandLoop env brands [] w1 = (Inr brandMap, w')" and r: "r = Inr brandMap" by auto
    from brandLoop_recorded[OF acc run'] r
    show "\<exists>brandMap. r = Inr brandMap \<and>
               fst ` set brandMap =
                 rid ` set (confirmedItems (destApi env) (requests w') (length (requests w1)) brands) \<and>
               (distinct (map rid brands) \<longrightarrow>
                  map fst brandMap =
                    map rid (confirmedItems (destApi env) (requests w') (length (requests w1)) brands))"
      by simp
  qed
  from mig general accepted show ?thesis
    by - (rule exI[of _ r], rule exI[of _ w'], intro conjI, assumption+)
qed

lemma categories_recorded:
  assumes fetch: "fetchAllResources env (sourceApi env) ''/catalog/categories'' w = Some (Inr fetched, w1)"
  shows "(\<exists>r w'.
         migrateCategories env w = Some (r, w') \<and>
         (\<forall>categoryMap. r = Inr categoryMap \<longrightarrow>
            length (requests w') = length (requests w1) + length fetched \<and>
            (\<forall>i<length fetched. \<exists>data.
               requests w' ! (length (requests w1) + i) = Post ''/catalog/categories'' data \<and>
               name data = rname (jsSort compareParent fetched ! i)) \<and>
            distinct (map fst categoryMap) \<and>
            fst ` set categoryMap \<subseteq>
              rid ` set (confirmedItems (destApi env) (requests w') (length (requests w1))
                           (jsSort compareParent fetched))) \<and>
         (accepts env \<longrightarrow>
            (\<exists>categoryMap. r = Inr categoryMap \<and>
               fst ` set categoryMap =
                 rid ` set (confirmedItems (destApi env) (requests w') (length (requests w1))
                              (jsSort compareParent fetched)) \<and>
               (distinct (map rid fetched) \<longrightarrow>
                  map fst categoryMap =
                    map rid (confirmedItems (destApi env) (requests w') (length (requests w1))
                               (jsSort compareParent fetched))))))"
proof -
  let ?cs = "jsSort compareParent fetched"
  obtain r w' where run: "categoryLoop env ?cs [] w1 = (r, w')"
    by (cases "categoryLoop env ?cs [] w1")
  have mig: "migrateCategories env w = Some (r, w')"
    using migrateCategories_loop[OF fetch] run by simp
  have general: "\<forall>categoryMap. r = Inr categoryMap \<longrightarrow>
            length (requests w') = length (requests w1) + length fetched \<and>
            (\<forall>i<length fetched. \<exists>data.
               requests w' ! (length (requests w1) + i) = Post ''/catalog/categories'' data \<and>
               name data = rname (?cs ! i)) \<and>
            distinct (map fst categoryMap) \<and>
            fst ` set categoryMap \<subseteq>
              rid ` set (confirmedItems (destApi env) (requests w') (length (requests w1)) ?cs)"
  proof (intro allI impI)
    fix categoryMap assume "r = Inr categoryMap"
    with run have run': "categoryLoop env ?cs [] w1 = (Inr categoryMap, w')" by simp
    have "distinct (map fst categoryMap)"
      using categoryLoop_distinct[OF run'] by simp
    with categoryLoop_length[OF run'] categoryLoop_names[OF run'] categoryLoop_only_confirmed[OF run']
    show "length (requests w') = length (requests w1) + length fetched \<and>
            (\<forall>i<length fetched. \<exists>data.
               requests w' ! (length (requests w1) + i) = Post ''/catalog/categories'' data \<and>
               name data = rname (?cs ! i)) \<and>
            distinct (map fst categoryMap) \<and>
            fst ` set categoryMap \<subseteq>
              rid ` set (confirmedItems (destApi env) (requests w') (length (requests w1)) ?cs)"
      by (simp add: length_jsSort)
  qed
  have d: "distinct (map rid fetched) \<Longrightarrow> distinct (map rid ?cs)"
    by (simp add: jsSort_sort_key distinct_map)
  have accepted: "accepts env \<longrightarrow>
            (\<exists>categoryMap. r = Inr categoryMap \<and>
               fst ` set categoryMap =
                 rid ` set (confirmedItems (destApi env) (requests w') (length (requests w1)) ?cs) \<and>
               (distinct (map rid fetched) \<longrightarrow>
                  map fst categoryMap =
                    map rid (confirmedItems (destApi env) (requests w') (length (requests w1)) ?cs)))"
  proof
    assume acc: "accepts env"
    from categoryLoop_returns[OF acc, of ?cs "[]" w1] run obtain categoryMap where
      run': "categoryLoop env ?cs [] w1 = (Inr categoryMap, w')" and r: "r = Inr categoryMap" by auto
    from categoryLoop_recorded[OF acc run'] r d
    show "\<exists>categoryMap. r = Inr categoryMap \<and>
               fst ` set categoryMap =
                 rid ` set (confirmedItems (destApi env) (requests w') (length (requests w1)) ?cs) \<and>
               (distinct (map rid fetched) \<longrightarrow>
                  map fst categoryMap =
                    map rid (confirmedItems (destApi env) (requests w') (length (requests w1)) ?cs))"
      by simp
  qed
  from mig general accepted show ?thesis
    by - (rule exI[of _ r], rule exI[of _ w'], intro conjI, assumption+)
qed

text \<open>
  C6, amended. For brands and for categories alike: when the stage returns a map, every
  item got its creation request, whether or not earlier creations failed, no key occurs
  twice, and every key is the identifier of an item whose creation the destination
  confirmed. When the log file takes every entry, the stage returns a map, a source
  identifier is a key of it exactly when it is the identifier of an item whose creation
  the destination confirmed, and when the source identifiers are distinct the keys are,
  in order, the identifiers of the items whose creation was confirmed, one entry for
  each; an item without a key is then one whose creation failed.
\<close>

theorem identifier_maps_record_confirmed:
  "(fetchAllResources env (sourceApi env) ''/catalog/brands'' w = Some (Inr brands, w1) \<longrightarrow>
      (\<exists>r w'.
         migrateBrands env w = Some (r, w') \<and>
         (\<forall>brandMap. r = Inr brandMap \<longrightarrow>
            length (requests w') = length (requests w1) + length brands \<and>
            (\<forall>i<length brands. \<exists>data.
               requests w' ! (length (requests w1) + i) = Post ''/catalog/brands'' data \<and>
               name data = rname (brands ! i)) \<and>
            distinct (map fst brandMap) \<and>
            fst ` set brandMap \<subseteq>
              rid ` set (confirmedItems (destApi env) (requests w') (length (requests w1)) brands)) \<and>
         (accepts env \<longrightarrow>
            (\<exists>brandMap. r = Inr brandMap \<and>
               fst ` set brandMap =
                 rid ` set (confirmedItems (destApi env) (requests w') (length (requests w1)) brands) \<and>
               (distinct (map rid brands) \<longrightarrow>
                  map fst brandMap =
                    map rid (confirmedItems (destApi env) (requests w') (length (requests w1)) brands)))))) \<and>
   (fetchAllResources env (sourceApi env) ''/catalog/categories'' w = Some (Inr fetched, w1) \<longrightarrow>
      (\<exists>r w'.
         migrateCategories env w = Some (r, w') \<and>
         (\<forall>categoryMap. r = Inr categoryMap \<longrightarrow>
            length (requests w') = length (requests w1) + length fetched \<and>
            (\<forall>i<length fetched. \<exists>data.
               requests w' ! (length (requests w1) + i) = Post ''/catalog/categories'' data \<and>
               name data = rname (jsSort compareParent fetched ! i)) \<and>
            distinct (map fst categoryMap) \<and>
            fst ` set categoryMap \<subseteq>
              rid ` set (confirmedItems (destApi env) (requests w') (length (requests w1))
                           (jsSort compareParent fetched))) \<and>
         (accepts env \<longrightarrow>
            (\<exists>categoryMap. r = Inr categoryMap \<and>
               fst ` set categoryMap =
                 rid ` set (confirmedItems (destApi env) (requests w') (length (requests w1))
                              (jsSort compareParent fetched)) \<and>
               (distinct (map rid fetched) \<longrightarrow>
                  map fst categoryMap =
                    map rid (confirmedItems (destApi env) (requests w') (length (requests w1))
                               (jsSort compareParent fetched)))))))"
  by (intro conjI impI) (erule brands_recorded, erule categories_recorded)

theorem identifier_maps_record_confirmed_witness:
  "\<exists>brandMap w'.
     migrateBrands exampleEnv freshWorld = Some (Inr brandMap, w') \<and>
     requests w' = [Get ''/catalog/brands'' 1 250,
                    Post ''/catalog/brands'' (BrandData ''Acme''),
                    Post ''/catalog/brands'' (BrandData ''Bolt'')] \<and>
     confirmedItems exampleDest (requests w') 1 [mkResource 1 ''Acme'', mkResource 2 ''Bolt''] =
       [mkResource 1 ''Acme''] \<and>
     map fst brandMap = [1]"
proof -
  let ?brands = "[mkResource 1 ''Acme'', mkResource 2 ''Bolt'']"
  let ?w1 = "freshWorld\<lparr>requests := [Get ''/catalog/brands'' 1 250]\<rparr>"
  let ?trace = "[Get ''/catalog/brands'' 1 250,
                 Post ''/catalog/brands'' (BrandData ''Acme''),
                 Post ''/catalog/brands'' (BrandData ''Bolt'')]"
  from identifier_maps_record_confirmed[THEN conjunct1, rule_format, OF exampleBrands]
  obtain r w' where
    run: "migrateBrands exampleEnv freshWorld = Some (r, w')"
    and acc: "accepts exampleEnv \<longrightarrow>
            (\<exists>brandMap. r = Inr brandMap \<and>
               fst ` set brandMap =
                 rid ` set (confirmedItems (destApi exampleEnv) (requests w') (length (requests ?w1)) ?brands) \<and>
               (distinct (map rid ?brands) \<longrightarrow>
                  map fst brandMap =
                    map rid (confirmedItems (destApi exampleEnv) (requests w') (length (requests ?w1)) ?brands)))"
    by (elim exE conjE)
  from acc accepts_example obtain brandMap where
    r: "r = Inr brandMap"
    and keys: "distinct (map rid ?brands) \<longrightarrow>
       map fst brandMap =
         map rid (confirmedItems (destApi exampleEnv) (requests w') (length (requests ?w1)) ?brands)"
    by blast
  have "requests (snd (brandLoop exampleEnv ?brands [] ?w1)) = ?trace"
    by (simp add: brandLoop_step[OF accepts_example] mkResource_def freshWorld_def)
  with run have trace: "requests w' = ?trace"
    by (simp add: migrateBrands_loop[OF exampleBrands])
  have upt: "[0..<(2::nat)] = [0, Suc 0]"
    by (simp add: upt_rec)
  have conf: "confirmedItems exampleDest ?trace 1 ?brands = [mkResource 1 ''Acme'']"
    by (simp add: confirmedItems_def confirmed_def exampleDest_def upt numeral_2_eq_2)
  have "distinct (map rid ?brands)"
    by (simp add: mkResource_def)
  with keys have "map fst brandMap = map rid (confirmedItems exampleDest (requests w') 1 ?brands)"
    by (simp add: exampleEnv_def freshWorld_def)
  with trace conf have "map fst brandMap = [1]"
    by (simp add: mkResource_def)
  with run r trace conf show ?thesis by simp
qed

subsection \<open>The product payload\<close>

lemma migrateBrands_Inr:
  assumes "migrateBrands env w = Some (Inr m, w')"
  shows "\<exists>brands w1. brandLoop env brands [] w1 = (Inr m, w')"
  using assms by (auto simp: migrateBrands_def split: option.splits sum.splits prod.splits)

lemma migrateCategories_Inr:
  assumes "migrateCategories env w = Some (Inr m, w')"
  shows "\<exists>cs w1. categoryLoop env cs [] w1 = (Inr m, w')"
  using assms by (auto simp: migrateCategories_def Let_def split: option.splits sum.splits prod.splits)

lemma nonzero_value:
  "0 \<notin> snd ` set m \<Longrightarrow> map_of m k = Some d \<Longrightarrow> d \<noteq> 0" for m :: idMap
  by (metis map_of_SomeD snd_conv image_eqI)

lemma truthy_mapped:
  "0 \<notin> snd ` set m \<Longrightarrow>
   map the (filter truthy (map (\<lambda>id. mapGet m (Some id)) cs)) = List.map_filter (map_of m) cs"
  by (induction cs)
     (auto simp: mapGet_def truthy_def List.map_filter_simps dest: nonzero_value split: option.splits)

lemma newProductData_mapped:
  assumes "0 \<notin> snd ` set brandMap" and "0 \<notin> snd ` set categoryMap"
  shows "newProductData brandMap categoryMap product =
     \<lparr>pd_name = rname product,
      pd_type = ''physical'',
      pd_weight = (case weight product of None \<Rightarrow> 0 | Some x \<Rightarrow> x),
      pd_price = price product,
      pd_categories = List.map_filter (map_of categoryMap) (categories product),
      pd_brand_id = (case brand_id product of None \<Rightarrow> None | Some b \<Rightarrow> map_of brandMap b)\<rparr>"
  unfolding newProductData_def truthy_mapped[OF assms(2)]
  using assms(1)
  by (auto simp: orZero_def orNull_def truthy_def mapGet_def dest: nonzero_value
      split: option.splits)

text \<open>
  C2. The destination keeps the identifier 0 for the root and gives none of the
  resources it creates that identifier. In a run whose brand stage returned \<open>brandMap\<close>
  and whose category stage returned \<open>categoryMap\<close>, the product stage, when its loop
  reaches the \<open>i\<close>-th fetched product, sends for it a creation request with this payload:
  the source name, the type \<open>physical\<close>, the source weight or 0 when it is absent, the
  source price unchanged, the category references that have an entry in \<open>categoryMap\<close>
  translated through it, in order, the others dropped, and the entry of \<open>brandMap\<close> for
  the source brand, or \<open>null\<close> when there is none. When the log file takes every entry the
  loop reaches every fetched product and the stages complete.
\<close>

theorem products_carry_translated_references:
  assumes ids: "\<forall>history endpoint data created.
                  post (destApi env) history endpoint data = Inr created \<longrightarrow> rid created \<noteq> 0"
    and brands: "migrateBrands env w = Some (Inr brandMap, wB)"
    and lb: "log env (''Migrated '' @ natToString (mapSize brandMap) @ '' brands'') wB = (Inr (), wB')"
    and cats: "migrateCategories env wB' = Some (Inr categoryMap, wC)"
    and lc: "log env (''Migrated '' @ natToString (mapSize categoryMap) @ '' categories'') wC
               = (Inr (), wC')"
    and fetch: "fetchAllResources env (sourceApi env) ''/catalog/products'' wC' = Some (Inr products, wP)"
  shows "\<exists>r w'.
     stages env w = Some (r, w') \<and>
     (\<forall>i wi.
        i < length products \<and>
        productLoop env (take i products) brandMap categoryMap wP = (Inr (), wi) \<longrightarrow>
        length (requests wP) + i < length (requests w') \<and>
        requests w' ! (length (requests wP) + i) =
          Post ''/catalog/products''
            (ProductData
               \<lparr>pd_name = rname (products ! i),
                pd_type = ''physical'',
                pd_weight = (case weight (products ! i) of None \<Rightarrow> 0 | Some x \<Rightarrow> x),
                pd_price = price (products ! i),
                pd_categories = List.map_filter (map_of categoryMap) (categories (products ! i)),
                pd_brand_id =
                  (case brand_id (products ! i) of
                     None \<Rightarrow> None
                   | Some b \<Rightarrow> map_of brandMap b)\<rparr>)) \<and>
     (accepts env \<longrightarrow>
        r = Inr () \<and>
        length (requests w') = length (requests wP) + length products \<and>
        (\<forall>i<length products. \<exists>wi.
           productLoop env (take i products) brandMap categoryMap wP = (Inr (), wi)))"
proof -
  let ?n = "length (requests wP)"
  from migrateBrands_Inr[OF brands] obtain bs wb where "brandLoop env bs [] wb = (Inr brandMap, wB)"
    by blast
  from brandLoop_values[OF this ids] have nzb: "0 \<notin> snd ` set brandMap" by simp
  from migrateCategories_Inr[OF cats] obtain cs wc where
    "categoryLoop env cs [] wc = (Inr categoryMap, wC)" by blast
  from categoryLoop_values[OF this ids] have nzc: "0 \<notin> snd ` set categoryMap" by simp
  obtain rP w5 where loop: "productLoop env products brandMap categoryMap wP = (rP, w5)"
    by (cases "productLoop env products brandMap categoryMap wP")
  have mp: "migrateProducts env brandMap categoryMap wC' = Some (rP, w5)"
    using migrateProducts_loop[OF fetch] loop by simp
  define r where "r = (case rP of Inl e \<Rightarrow> Inl e | Inr u \<Rightarrow> fst (log env ''Migration completed'' w5))"
  define w' where "w' = (case rP of Inl e \<Rightarrow> w5 | Inr u \<Rightarrow> logged env ''Migration completed'' w5)"
  have "stages env w =
      (case rP of
         Inl e \<Rightarrow> Some (Inl e, w5)
       | Inr u \<Rightarrow> Some (log env ''Migration completed'' w5))"
    unfolding stages_def brands option.case prod.case sum.case lb cats lc mp
    by (cases rP) simp_all
  then have st: "stages env w = Some (r, w')"
    by (cases rP) (simp_all add: r_def w'_def logged_def)
  have tr: "requests w' = requests w5"
    by (cases rP) (simp_all add: w'_def)
  have nth: "\<forall>i wi.
        i < length products \<and>
        productLoop env (take i products) brandMap categoryMap wP = (Inr (), wi) \<longrightarrow>
        ?n + i < length (requests w') \<and>
        requests w' ! (?n + i) =
          Post ''/catalog/products''
            (ProductData
               \<lparr>pd_name = rname (products ! i),
                pd_type = ''physical'',
                pd_weight = (case weight (products ! i) of None \<Rightarrow> 0 | Some x \<Rightarrow> x),
                pd_price = price (products ! i),
                pd_categories = List.map_filter (map_of categoryMap) (categories (products ! i)),
                pd_brand_id =
                  (case brand_id (products ! i) of
                     None \<Rightarrow> None
                   | Some b \<Rightarrow> map_of brandMap b)\<rparr>)"
  proof (intro allI impI, elim conjE)
    fix i wi
    assume i: "i < length products"
      and pre: "productLoop env (take i products) brandMap categoryMap wP = (Inr (), wi)"
    from productLoop_nth(2,3)[OF i pre loop]
    show "?n + i < length (requests w') \<and>
        requests w' ! (?n + i) =
          Post ''/catalog/products''
            (ProductData
               \<lparr>pd_name = rname (products ! i),
                pd_type = ''physical'',
                pd_weight = (case weight (products ! i) of None \<Rightarrow> 0 | Some x \<Rightarrow> x),
                pd_price = price (products ! i),
                pd_categories = List.map_filter (map_of categoryMap) (categories (products ! i)),
                pd_brand_id =
                  (case brand_id (products ! i) of
                     None \<Rightarrow> None
                   | Some b \<Rightarrow> map_of brandMap b)\<rparr>)"
      unfolding tr newProductData_mapped[OF nzb nzc] by simp
  qed
  have acc: "accepts env \<longrightarrow>
        r = Inr () \<and>
        length (requests w') = ?n + length products \<and>
        (\<forall>i<length products. \<exists>wi.
           productLoop env (take i products) brandMap categoryMap wP = (Inr (), wi))"
  proof
    assume a: "accepts env"
    from productLoop_returns[OF a, of products brandMap categoryMap wP] loop
    have rP: "rP = Inr ()" by simp
    have "r = Inr ()"
      by (simp add: r_def rP log_accepts[OF a])
    moreover have "length (requests w') = ?n + length products"
      unfolding tr using productLoop_length[OF loop[unfolded rP]] .
    moreover have "\<forall>i<length products. \<exists>wi.
           productLoop env (take i products) brandMap categoryMap wP = (Inr (), wi)"
      using productLoop_returns[OF a] by blast
    ultimately show "r = Inr () \<and>
        length (requests w') = ?n + length products \<and>
        (\<forall>i<length products. \<exists>wi.
           productLoop env (take i products) brandMap categoryMap wP = (Inr (), wi))"
      by (intro conjI)
  qed
  from st nth acc show ?thesis
    by - (rule exI[of _ r], rule exI[of _ w'], intro conjI, assumption+)
qed

lemma example_listing:
  "fetchAllResources exampleEnv (sourceApi exampleEnv) ''/catalog/brands'' w =
     Some (Inr [mkResource 1 ''Acme'', mkResource 2 ''Bolt''],
           w\<lparr>requests := requests w @ [Get ''/catalog/brands'' 1 250]\<rparr>)"
  "fetchAllResources exampleEnv (sourceApi exampleEnv) ''/catalog/categories'' w =
     Some (Inr [(mkResource 1 ''Garden'')\<lparr>parent_id := Some 0\<rparr>,
                (mkResource 2 ''Tools'')\<lparr>parent_id := Some 1\<rparr>,
                (mkResource 3 ''Seeds'')\<lparr>parent_id := Some 1\<rparr>],
           w\<lparr>requests := requests w @ [Get ''/catalog/categories'' 1 250,
                                         Get ''/catalog/categories'' 2 250]\<rparr>)"
  "fetchAllResources exampleEnv (sourceApi exampleEnv) ''/catalog/products'' w =
     Some (Inr [(mkResource 11 ''Spade'')\<lparr>price := Some 20, weight := Some 2,
                                            categories := [2], brand_id := Some 1\<rparr>,
                (mkResource 12 ''Rake'')\<lparr>price := Some 15, categories := [2, 6],
                                           brand_id := Some 2\<rparr>,
                (mkResource 13 ''Basil'')\<lparr>price := Some 3, categories := [3]\<rparr>],
           w\<lparr>requests := requests w @ [Get ''/catalog/products'' 1 250]\<rparr>)"
  by (simp_all add: fetchAllResources_def fetchLoop.simps exampleEnv_def exampleSource_def limit_def)

theorem products_carry_translated_references_witness:
  "\<exists>r w'.
     stages exampleEnv freshWorld = Some (r, w') \<and>
     requests w' ! 9 =
       Post ''/catalog/products''
         (ProductData \<lparr>pd_name = ''Spade'', pd_type = ''physical'', pd_weight = 2,
                       pd_price = Some 20, pd_categories = [106], pd_brand_id = Some 101\<rparr>) \<and>
     requests w' ! 10 =
       Post ''/catalog/products''
         (ProductData \<lparr>pd_name = ''Rake'', pd_type = ''physical'', pd_weight = 0,
                       pd_price = Some 15, pd_categories = [106], pd_brand_id = None\<rparr>)"
proof -
  let ?brands = "[mkResource 1 ''Acme'', mkResource 2 ''Bolt'']"
  let ?cats = "[(mkResource 1 ''Garden'')\<lparr>parent_id := Some 0\<rparr>,
                (mkResource 2 ''Tools'')\<lparr>parent_id := Some 1\<rparr>,
                (mkResource 3 ''Seeds'')\<lparr>parent_id := Some 1\<rparr>]"
  let ?products = "[(mkResource 11 ''Spade'')\<lparr>price := Some 20, weight := Some 2,
                                            categories := [2], brand_id := Some 1\<rparr>,
                (mkResource 12 ''Rake'')\<lparr>price := Some 15, categories := [2, 6],
                                           brand_id := Some 2\<rparr>,
                (mkResource 13 ''Basil'')\<lparr>price := Some 3, categories := [3]\<rparr>]"
  let ?bm = "[(1, 101)] :: idMap"
  let ?cm = "[(1, 105), (2, 106), (3, 107)] :: idMap"
  note acc = accepts_example
  have dest: "destApi exampleEnv = exampleDest"
    by (simp add: exampleEnv_def)
  have ids: "\<forall>history endpoint data created.
      post (destApi exampleEnv) history endpoint data = Inr created \<longrightarrow> rid created \<noteq> 0"
    by (auto simp: dest exampleDest_def mkResource_def split: if_splits)
  define w1 where "w1 = freshWorld\<lparr>requests := requests freshWorld @ [Get ''/catalog/brands'' 1 250]\<rparr>"
  have r1: "requests w1 = [Get ''/catalog/brands'' 1 250]"
    by (simp add: w1_def freshWorld_def)
  define wB where "wB = snd (brandLoop exampleEnv ?brands [] w1)"
  have "fst (brandLoop exampleEnv ?brands [] w1) = Inr ?bm"
    by (simp add: brandLoop_step[OF acc] r1 dest exampleDest_def mapSet_def mkResource_def)
  then have bl: "brandLoop exampleEnv ?brands [] w1 = (Inr ?bm, wB)"
    unfolding wB_def by (cases "brandLoop exampleEnv ?brands [] w1") simp
  have rB: "length (requests wB) = 3"
    by (simp add: wB_def brandLoop_step[OF acc] r1)
  have brands: "migrateBrands exampleEnv freshWorld = Some (Inr ?bm, wB)"
    using migrateBrands_loop[OF example_listing(1), of freshWorld] bl by (simp add: w1_def)
  define wB' where "wB' = logged exampleEnv (''Migrated '' @ natToString (mapSize ?bm) @ '' brands'') wB"
  have lb: "log exampleEnv (''Migrated '' @ natToString (mapSize ?bm) @ '' brands'') wB = (Inr (), wB')"
    unfolding wB'_def by (rule log_accepts[OF acc])
  define w2 where "w2 = wB'\<lparr>requests := requests wB' @ [Get ''/catalog/categories'' 1 250,
                                         Get ''/catalog/categories'' 2 250]\<rparr>"
  have r2: "length (requests w2) = 5"
    by (simp add: w2_def wB'_def rB)
  have sorted: "jsSort compareParent ?cats = ?cats"
    by (simp add: compareParent_def parentKey_eq mkResource_def)
  define wC where "wC = snd (categoryLoop exampleEnv ?cats [] w2)"
  have "fst (categoryLoop exampleEnv ?cats [] w2) = Inr ?cm"
    by (simp add: categoryLoop_step[OF acc] r2 dest exampleDest_def newCategoryData_eq mapGet_def
        mapSet_def mkResource_def)
  then have cl: "categoryLoop exampleEnv ?cats [] w2 = (Inr ?cm, wC)"
    unfolding wC_def by (cases "categoryLoop exampleEnv ?cats [] w2") simp
  have rC: "length (requests wC) = 8"
    by (simp add: wC_def categoryLoop_step[OF acc] r2)
  have cats: "migrateCategories exampleEnv wB' = Some (Inr ?cm, wC)"
    using migrateCategories_loop[OF example_listing(2), of wB', unfolded sorted] cl
    by (simp add: w2_def)
  define wC' where "wC' = logged exampleEnv (''Migrated '' @ natToString (mapSize ?cm) @ '' categories'') wC"
  have lc: "log exampleEnv (''Migrated '' @ natToString (mapSize ?cm) @ '' categories'') wC = (Inr (), wC')"
    unfolding wC'_def by (rule log_accepts[OF acc])
  define wP where "wP = wC'\<lparr>requests := requests wC' @ [Get ''/catalog/products'' 1 250]\<rparr>"
  have rP: "length (requests wP) = 9"
    by (simp add: wP_def wC'_def rC)
  have fetch: "fetchAllResources exampleEnv (sourceApi exampleEnv) ''/catalog/products'' wC' =
      Some (Inr ?products, wP)"
    unfolding wP_def by (rule example_listing(3))
  from products_carry_translated_references[OF ids brands lb cats lc fetch] obtain r w' where
    st: "stages exampleEnv freshWorld = Some (r, w')"
    and nth: "\<forall>i wi.
        i < length ?products \<and>
        productLoop exampleEnv (take i ?products) ?bm ?cm wP = (Inr (), wi) \<longrightarrow>
        length (requests wP) + i < length (requests w') \<and>
        requests w' ! (length (requests wP) + i) =
          Post ''/catalog/products''
            (ProductData
               \<lparr>pd_name = rname (?products ! i),
                pd_type = ''physical'',
                pd_weight = (case weight (?products ! i) of None \<Rightarrow> 0 | Some x \<Rightarrow> x),
                pd_price = price (?products ! i),
                pd_categories = List.map_filter (map_of ?cm) (categories (?products ! i)),
                pd_brand_id =
                  (case brand_id (?products ! i) of
                     None \<Rightarrow> None
                   | Some b \<Rightarrow> map_of ?bm b)\<rparr>)"
    and reach: "accepts exampleEnv \<longrightarrow>
        r = Inr () \<and>
        length (requests w') = length (requests wP) + length ?products \<and>
        (\<forall>i<length ?products. \<exists>wi.
           productLoop exampleEnv (take i ?products) ?bm ?cm wP = (Inr (), wi))"
    by (elim exE conjE)
  from reach acc have pre: "\<forall>i<length ?products. \<exists>wi.
           productLoop exampleEnv (take i ?products) ?bm ?cm wP = (Inr (), wi)"
    by blast
  have l0: "0 < length ?products" and l1: "1 < length ?products" by simp_all
  from pre[rule_format, OF l0] obtain wi0 where
    p0: "productLoop exampleEnv (take 0 ?products) ?bm ?cm wP = (Inr (), wi0)" by blast
  from pre[rule_format, OF l1] obtain wi1 where
    p1: "productLoop exampleEnv (take 1 ?products) ?bm ?cm wP = (Inr (), wi1)" by blast
  from nth[rule_format, OF conjI[OF l0 p0], THEN conjunct2]
  have spade: "requests w' ! 9 =
       Post ''/catalog/products''
         (ProductData \<lparr>pd_name = ''Spade'', pd_type = ''physical'', pd_weight = 2,
                       pd_price = Some 20, pd_categories = [106], pd_brand_id = Some 101\<rparr>)"
    by (simp add: rP mkResource_def List.map_filter_simps)
  from nth[rule_format, OF conjI[OF l1 p1], THEN conjunct2]
  have rake: "requests w' ! 10 =
       Post ''/catalog/products''
         (ProductData \<lparr>pd_name = ''Rake'', pd_type = ''physical'', pd_weight = 0,
                       pd_price = Some 15, pd_categories = [106], pd_brand_id = None\<rparr>)"
    by (simp add: rP mkResource_def List.map_filter_simps)
  from st spade rake show ?thesis by blast
qed

text \<open>
  C9. The maps are read by truthiness, not by key presence. A category mapped to the
  destination identifier 0 is filtered out of a product's categories and resolves to the
  root 0 as a parent; a brand mapped to 0 gives the brand \<open>null\<close>. When no destination
  identifier stored in a map is 0, reading by truthiness and reading by key presence
  agree: the categories are the mapped references, a parent resolves to 0 exactly when it
  has no entry, and the brand is the entry of the map.
\<close>

theorem truthiness_not_membership:
  "(map_of categoryMap c = Some 0 \<longrightarrow>
      pd_categories (newProductData brandMap categoryMap (product\<lparr>categories := [c]\<rparr>)) = [] \<and>
      cd_parent_id (newCategoryData categoryMap (category\<lparr>parent_id := Some c\<rparr>)) = 0) \<and>
   (map_of brandMap b = Some 0 \<longrightarrow>
      pd_brand_id (newProductData brandMap categoryMap (product\<lparr>brand_id := Some b\<rparr>)) = None) \<and>
   (0 \<notin> snd ` set categoryMap \<longrightarrow>
      pd_categories (newProductData brandMap categoryMap product) =
        List.map_filter (map_of categoryMap) (categories product) \<and>
      (cd_parent_id (newCategoryData categoryMap category) = 0 \<longleftrightarrow>
         mapGet categoryMap (parent_id category) = None)) \<and>
   (0 \<notin> snd ` set brandMap \<longrightarrow>
      pd_brand_id (newProductData brandMap categoryMap product) =
        mapGet brandMap (brand_id product))"
proof -
  have nz: "d \<noteq> 0" if "0 \<notin> snd ` set m" "map_of m k = Some d" for m :: idMap and k d
    using that by (metis map_of_SomeD snd_conv image_eqI)
  have cats: "0 \<notin> snd ` set categoryMap \<Longrightarrow>
      map the (filter truthy (map (\<lambda>id. mapGet categoryMap (Some id)) cs)) =
      List.map_filter (map_of categoryMap) cs" for cs
    by (induction cs)
       (auto simp: mapGet_def truthy_def List.map_filter_simps dest: nz split: option.splits)
  have c1: "map_of categoryMap c = Some 0 \<longrightarrow>
      pd_categories (newProductData brandMap categoryMap (product\<lparr>categories := [c]\<rparr>)) = [] \<and>
      cd_parent_id (newCategoryData categoryMap (category\<lparr>parent_id := Some c\<rparr>)) = 0"
    by (simp add: newProductData_def newCategoryData_def orZero_def truthy_def mapGet_def)
  have c2: "map_of brandMap b = Some 0 \<longrightarrow>
      pd_brand_id (newProductData brandMap categoryMap (product\<lparr>brand_id := Some b\<rparr>)) = None"
    by (simp add: newProductData_def orNull_def truthy_def mapGet_def)
  have c3: "0 \<notin> snd ` set categoryMap \<longrightarrow>
      pd_categories (newProductData brandMap categoryMap product) =
        List.map_filter (map_of categoryMap) (categories product) \<and>
      (cd_parent_id (newCategoryData categoryMap category) = 0 \<longleftrightarrow>
         mapGet categoryMap (parent_id category) = None)"
    by (auto simp: newProductData_def newCategoryData_def cats orZero_def truthy_def
        dest: nz split: option.splits) (auto simp: mapGet_def dest: nz split: option.splits)
  have c4: "0 \<notin> snd ` set brandMap \<longrightarrow>
      pd_brand_id (newProductData brandMap categoryMap product) =
        mapGet brandMap (brand_id product)"
    by (auto simp: newProductData_def orNull_def truthy_def mapGet_def dest: nz
        split: option.splits)
  from c1 c2 c3 c4 show ?thesis by blast
qed

theorem truthiness_not_membership_witness:
  "map_of [(5, 0)] (5::int) = Some (0::int) \<and>
   pd_categories (newProductData [(7, 0)] [(5, 0)]
      ((mkResource 1 ''Widget'')\<lparr>categories := [5]\<rparr>)) = [] \<and>
   cd_parent_id (newCategoryData [(5, 0)] ((mkResource 2 ''Child'')\<lparr>parent_id := Some 5\<rparr>)) = 0 \<and>
   pd_brand_id (newProductData [(7, 0)] [(5, 0)]
      ((mkResource 1 ''Widget'')\<lparr>brand_id := Some 7\<rparr>)) = None \<and>
   pd_categories (newProductData [(7, 70)] [(5, 50)]
      ((mkResource 1 ''Widget'')\<lparr>categories := [5, 6]\<rparr>)) = [50] \<and>
   pd_brand_id (newProductData [(7, 70)] [(5, 50)]
      ((mkResource 1 ''Widget'')\<lparr>brand_id := Some 7\<rparr>)) = Some 70"
  using truthiness_not_membership
          [of "[(5, 0)]" 5 "[(7, 0)]" "mkResource 1 ''Widget''" "mkResource 2 ''Child''" 7]
        truthiness_not_membership
          [of "[(5, 50)]" 5 "[(7, 70)]" "(mkResource 1 ''Widget'')\<lparr>categories := [5, 6]\<rparr>"
              "mkResource 2 ''Child''" 7]
        truthiness_not_membership
          [of "[(5, 50)]" 5 "[(7, 70)]" "(mkResource 1 ''Widget'')\<lparr>brand_id := Some 7\<rparr>"
              "mkResource 2 ''Child''" 7]
  by (simp add: List.map_filter_simps mapGet_def)

subsection \<open>A whole run\<close>

lemma migrateBrands_appended:
  assumes "migrateBrands env w = Some (r, w')"
  shows "\<exists>es rs. appended env w w' es rs \<and> (\<forall>q \<in> set rs. endpointOf q = ''/catalog/brands'')"
proof (cases "fetchAllResources env (sourceApi env) ''/catalog/brands'' w")
  case None
  with assms show ?thesis by (simp add: migrateBrands_def)
next
  case (Some y)
  obtain r0 w1 where y: "y = (r0, w1)" by (cases y)
  from fetchAllResources_appended[OF Some[unfolded y]] obtain es rs where
    f: "appended env w w1 es rs" "\<forall>q \<in> set rs. endpointOf q = ''/catalog/brands''" by blast
  show ?thesis
  proof (cases r0)
    case (Inl e)
    with assms Some y have "w' = w1" by (simp add: migrateBrands_def)
    with f show ?thesis by blast
  next
    case (Inr brands)
    with assms Some y have "brandLoop env brands [] w1 = (r, w')"
      by (simp add: migrateBrands_def)
    from brandLoop_appended[OF this] obtain es' rs' where
      l: "appended env w1 w' es' rs'" "\<forall>q \<in> set rs'. endpointOf q = ''/catalog/brands''" by blast
    from appended_trans[OF f(1) l(1)] f(2) l(2) show ?thesis
      by (intro exI[of _ "es @ es'"] exI[of _ "rs @ rs'"]) auto
  qed
qed

lemma migrateCategories_appended:
  assumes "migrateCategories env w = Some (r, w')"
  shows "\<exists>es rs. appended env w w' es rs \<and> (\<forall>q \<in> set rs. endpointOf q = ''/catalog/categories'')"
proof (cases "fetchAllResources env (sourceApi env) ''/catalog/categories'' w")
  case None
  with assms show ?thesis by (simp add: migrateCategories_def)
next
  case (Some y)
  obtain r0 w1 where y: "y = (r0, w1)" by (cases y)
  from fetchAllResources_appended[OF Some[unfolded y]] obtain es rs where
    f: "appended env w w1 es rs" "\<forall>q \<in> set rs. endpointOf q = ''/catalog/categories''" by blast
  show ?thesis
  proof (cases r0)
    case (Inl e)
    with assms Some y have "w' = w1" by (simp add: migrateCategories_def)
    with f show ?thesis by blast
  next
    case (Inr fetched)
    with assms Some y have "categoryLoop env (jsSort compareParent fetched) [] w1 = (r, w')"
      by (simp add: migrateCategories_def)
    from categoryLoop_appended[OF this] obtain es' rs' where
      l: "appended env w1 w' es' rs'" "\<forall>q \<in> set rs'. endpointOf q = ''/catalog/categories''" by blast
    from appended_trans[OF f(1) l(1)] f(2) l(2) show ?thesis
      by (intro exI[of _ "es @ es'"] exI[of _ "rs @ rs'"]) auto
  qed
qed

lemma migrateProducts_appended:
  assumes "migrateProducts env bm cm w = Some (r, w')"
  shows "\<exists>es rs. appended env w w' es rs \<and> (\<forall>q \<in> set rs. endpointOf q = ''/catalog/products'')"
proof (cases "fetchAllResources env (sourceApi env) ''/catalog/products'' w")
  case None
  with assms show ?thesis by (simp add: migrateProducts_def)
next
  case (Some y)
  obtain r0 w1 where y: "y = (r0, w1)" by (cases y)
  from fetchAllResources_appended[OF Some[unfolded y]] obtain es rs where
    f: "appended env w w1 es rs" "\<forall>q \<in> set rs. endpointOf q = ''/catalog/products''" by blast
  show ?thesis
  proof (cases r0)
    case (Inl e)
    with assms Some y have "w' = w1" by (simp add: migrateProducts_def)
    with f show ?thesis by blast
  next
    case (Inr products)
    with assms Some y have "productLoop env products bm cm w1 = (r, w')"
      by (simp add: migrateProducts_def)
    from productLoop_appended[OF this] obtain es' rs' where
      l: "appended env w1 w' es' rs'" "\<forall>q \<in> set rs'. endpointOf q = ''/catalog/products''" by blast
    from appended_trans[OF f(1) l(1)] f(2) l(2) show ?thesis
      by (intro exI[of _ "es @ es'"] exI[of _ "rs @ rs'"]) auto
  qed
qed

lemma appended_then_log:
  assumes "appended env w w1 es rs" and "log env msg w1 = (r, w2)"
  shows "\<exists>es'. appended env w w2 es' rs"
  using appended_trans[OF assms(1) appended_log[OF assms(2)]] by auto

lemma stages_appended:
  assumes "stages env w = Some (r, w')"
  shows "\<exists>es rb rc rp. appended env w w' es (rb @ rc @ rp) \<and>
           (\<forall>q \<in> set rb. endpointOf q = ''/catalog/brands'') \<and>
           (\<forall>q \<in> set rc. endpointOf q = ''/catalog/categories'') \<and>
           (\<forall>q \<in> set rp. endpointOf q = ''/catalog/products'')"
proof -
  from assms obtain rB wB where B: "migrateBrands env w = Some (rB, wB)"
    by (cases "migrateBrands env w") (auto simp: stages_def)
  from migrateBrands_appended[OF B] obtain eb rb where
    b: "appended env w wB eb rb" "\<forall>q \<in> set rb. endpointOf q = ''/catalog/brands''" by blast
  have done_b: ?thesis if "w' = v" "appended env w v es rb" for v es
    using that b(2) by (intro exI[of _ es] exI[of _ rb] exI[of _ "[]"]) simp
  show ?thesis
  proof (cases rB)
    case (Inl e)
    with assms B have "w' = wB" by (simp add: stages_def)
    from done_b[OF this b(1)] show ?thesis .
  next
    case (Inr brandMap)
    obtain r2 w2 where L2: "log env (''Migrated '' @ natToString (mapSize brandMap) @ '' brands'') wB = (r2, w2)"
      by (cases "log env (''Migrated '' @ natToString (mapSize brandMap) @ '' brands'') wB")
    from appended_then_log[OF b(1) L2] obtain e2 where a2: "appended env w w2 e2 rb" by blast
    have st2: "stages env w =
        (case r2 of Inl error \<Rightarrow> Some (Inl error, w2)
         | Inr u \<Rightarrow>
            (case migrateCategories env w2 of
                  None \<Rightarrow> None
                | Some (Inl error, w3) \<Rightarrow> Some (Inl error, w3)
                | Some (Inr categoryMap, w3) \<Rightarrow>
                    (case log env (''Migrated '' @ natToString (mapSize categoryMap)
                                     @ '' categories'') w3 of
                       (Inl error, w4) \<Rightarrow> Some (Inl error, w4)
                     | (Inr _, w4) \<Rightarrow>
                         (case migrateProducts env brandMap categoryMap w4 of
                            None \<Rightarrow> None
                          | Some (Inl error, w5) \<Rightarrow> Some (Inl error, w5)
                          | Some (Inr _, w5) \<Rightarrow> Some (log env ''Migration completed'' w5)))))"
      unfolding stages_def B Inr option.case prod.case sum.case L2 by (cases r2) simp_all
    show ?thesis
    proof (cases r2)
      case (Inl e)
      with assms st2 have "w' = w2" by simp
      from done_b[OF this a2] show ?thesis .
    next
      case r2: (Inr u2)
      from assms st2 r2 obtain rC wC where C: "migrateCategories env w2 = Some (rC, wC)"
        by (cases "migrateCategories env w2") auto
      from migrateCategories_appended[OF C] obtain ec rc where
        c: "appended env w2 wC ec rc" "\<forall>q \<in> set rc. endpointOf q = ''/catalog/categories''" by blast
      from appended_trans[OF a2 c(1)] have bc: "appended env w wC (e2 @ ec) (rb @ rc)" .
      have done_c: ?thesis if "w' = v" "appended env w v es (rb @ rc)" for v es
        using that b(2) c(2) by (intro exI[of _ es] exI[of _ rb] exI[of _ rc] exI[of _ "[]"]) simp
      show ?thesis
      proof (cases rC)
        case (Inl e)
        with assms st2 r2 C have "w' = wC" by simp
        from done_c[OF this bc] show ?thesis .
      next
        case rC: (Inr categoryMap)
        obtain r4 w4 where L4: "log env (''Migrated '' @ natToString (mapSize categoryMap)
                                     @ '' categories'') wC = (r4, w4)"
          by (cases "log env (''Migrated '' @ natToString (mapSize categoryMap)
                                     @ '' categories'') wC")
        from appended_then_log[OF bc L4] obtain e4 where a4: "appended env w w4 e4 (rb @ rc)" by blast
        have st4: "stages env w =
          (case r4 of Inl error \<Rightarrow> Some (Inl error, w4)
           | Inr u \<Rightarrow>
              (case migrateProducts env brandMap categoryMap w4 of
                            None \<Rightarrow> None
                          | Some (Inl error, w5) \<Rightarrow> Some (Inl error, w5)
                          | Some (Inr _, w5) \<Rightarrow> Some (log env ''Migration completed'' w5)))"
          unfolding st2 r2 sum.case C rC option.case prod.case L4 by (cases r4) simp_all
        show ?thesis
        proof (cases r4)
          case (Inl e)
          with assms st4 have "w' = w4" by simp
          from done_c[OF this a4] show ?thesis .
        next
          case r4: (Inr u4)
          from assms st4 r4 obtain rP wP where
            P: "migrateProducts env brandMap categoryMap w4 = Some (rP, wP)"
            by (cases "migrateProducts env brandMap categoryMap w4") auto
          from migrateProducts_appended[OF P] obtain ep rp where
            p: "appended env w4 wP ep rp" "\<forall>q \<in> set rp. endpointOf q = ''/catalog/products''" by blast
          from appended_trans[OF a4 p(1)] have bcp: "appended env w wP (e4 @ ep) ((rb @ rc) @ rp)" .
          have done_p: ?thesis if "w' = v" "appended env w v es ((rb @ rc) @ rp)" for v es
            using that b(2) c(2) p(2) by (intro exI[of _ es] exI[of _ rb] exI[of _ rc] exI[of _ rp]) simp
          show ?thesis
          proof (cases rP)
            case (Inl e)
            with assms st4 r4 P have "w' = wP" by simp
            from done_p[OF this bcp] show ?thesis .
          next
            case (Inr u)
            with assms st4 r4 P have L: "log env ''Migration completed'' wP = (r, w')" by simp
            from appended_then_log[OF bcp L] obtain e6 where "appended env w w' e6 ((rb @ rc) @ rp)"
              by blast
            from done_p[OF refl this] show ?thesis .
          qed
        qed
      qed
    qed
  qed
qed

lemma sendEmailLog_effect:
  assumes "sendEmailLog env w = (r, w')"
  shows "\<exists>later fs.
     logs w' = logs w @ later \<and> logFile w' = logFile w @ fs \<and>
     requests w' = requests w \<and> emails w' = emails w @ [emailOf env w] \<and>
     (accepts env \<longrightarrow>
        r = Inr () \<and> fs = later \<and>
        (later = [logMessage (now env (Suc (ticks w))) ''Email sent successfully''] \<or>
         (\<exists>e. later = [logMessage (now env (Suc (ticks w))) (''Failed to send email: '' @ message e)])))"
proof -
  let ?w1 = "w\<lparr>ticks := Suc (ticks w), emails := emails w @ [emailOf env w]\<rparr>"
  let ?ok = "''Email sent successfully''"
  let ?fail = "\<lambda>e. ''Failed to send email: '' @ message e"
  have w1: "logs ?w1 = logs w" "logFile ?w1 = logFile w" "requests ?w1 = requests w"
    "emails ?w1 = emails w @ [emailOf env w]" "ticks ?w1 = Suc (ticks w)"
    by simp_all
  from assms have shape:
    "(w' = logged env ?ok ?w1 \<and> (accepts env \<longrightarrow> r = Inr ())) \<or>
     (\<exists>e. w' = logged env (?fail e) ?w1 \<and> (accepts env \<longrightarrow> r = Inr ())) \<or>
     (\<exists>e. w' = logged env (?fail e) (logged env ?ok ?w1) \<and> \<not> accepts env)"
    by (auto simp: sendEmailLog_def Let_def log_result accepts_def split: sum.splits option.splits)
  have one: "\<exists>later fs.
     logs w' = logs w @ later \<and> logFile w' = logFile w @ fs \<and>
     requests w' = requests w \<and> emails w' = emails w @ [emailOf env w] \<and>
     (accepts env \<longrightarrow>
        r = Inr () \<and> fs = later \<and>
        (later = [logMessage (now env (Suc (ticks w))) ''Email sent successfully''] \<or>
         (\<exists>e. later = [logMessage (now env (Suc (ticks w))) (''Failed to send email: '' @ message e)])))"
    if w': "w' = logged env m ?w1" and r: "accepts env \<longrightarrow> r = Inr ()"
      and m: "m = ?ok \<or> (\<exists>e. m = ?fail e)" for m
  proof -
    from appended_logged[of env ?w1 m] obtain fs where
      fs: "logFile w' = logFile w @ fs" "accepts env \<longrightarrow> fs = [logMessage (now env (Suc (ticks w))) m]"
      unfolding w' appended_def by auto
    show ?thesis
      by (rule exI[of _ "[logMessage (now env (Suc (ticks w))) m]"], rule exI[of _ fs])
         (use fs r m in \<open>auto simp: w'\<close>)
  qed
  from shape show ?thesis
  proof (elim disjE exE conjE)
    assume "w' = logged env ?ok ?w1" "accepts env \<longrightarrow> r = Inr ()"
    from one[OF this] show ?thesis by simp
  next
    fix e assume "w' = logged env (?fail e) ?w1" "accepts env \<longrightarrow> r = Inr ()"
    from one[OF this] show ?thesis by blast
  next
    fix e assume w': "w' = logged env (?fail e) (logged env ?ok ?w1)" and n: "\<not> accepts env"
    from appended_trans[OF appended_logged[of env ?w1 ?ok] appended_logged[of env "logged env ?ok ?w1" "?fail e"]]
    obtain fs where "logFile w' = logFile w @ fs"
      unfolding w' appended_def by auto
    with n show ?thesis
      by (intro exI[of _ "[logMessage (now env (Suc (ticks w))) ?ok,
                          logMessage (now env (Suc (Suc (ticks w)))) (?fail e)]"] exI[of _ fs])
         (simp add: w')
  qed
qed

text \<open>
  What a run has done when it hands the mail over, or when \<open>log\<close> throws outside
  \<open>sendEmailLog\<close>.
\<close>

lemma run_before_report:
  assumes "runMigration env w = Some (r, w')"
  shows "\<exists>w3 es rb rc rp.
     appended env (w\<lparr>logs := []\<rparr>) w3
       (logMessage (now env (ticks w)) ''Starting migration...'' # es) (rb @ rc @ rp) \<and>
     (\<forall>q \<in> set rb. endpointOf q = ''/catalog/brands'') \<and>
     (\<forall>q \<in> set rc. endpointOf q = ''/catalog/categories'') \<and>
     (\<forall>q \<in> set rp. endpointOf q = ''/catalog/products'') \<and>
     (sendEmailLog env w3 = (r, w') \<or> (w' = w3 \<and> \<not> accepts env))"
proof -
  let ?w0 = "w\<lparr>logs := []\<rparr>"
  let ?start = "logMessage (now env (ticks w)) ''Starting migration...''"
  let ?w1 = "logged env ''Starting migration...'' ?w0"
  obtain r1 where L1: "log env ''Starting migration...'' ?w0 = (r1, ?w1)"
    by (simp add: log_result)
  have a1: "appended env ?w0 ?w1 [?start] []"
    using appended_logged[of env ?w0 "''Starting migration...''"] by simp
  show ?thesis
  proof (cases r1)
    case (Inl e)
    with assms L1 have w': "w' = ?w1"
      by (simp add: runMigration_def)
    from Inl L1 have "\<not> accepts env"
      using log_accepts[of env "''Starting migration...''" ?w0] by auto
    with a1 w' show ?thesis
      by (intro exI[of _ ?w1] exI[of _ "[]"]) simp
  next
    case r1: (Inr u1)
    from assms L1 r1 obtain r2 w2 where st: "stages env ?w1 = Some (r2, w2)"
      by (cases "stages env ?w1") (auto simp: runMigration_def)
    from stages_appended[OF st] obtain es rb rc rp where
      a2: "appended env ?w1 w2 es (rb @ rc @ rp)"
      and e: "\<forall>q \<in> set rb. endpointOf q = ''/catalog/brands''"
             "\<forall>q \<in> set rc. endpointOf q = ''/catalog/categories''"
             "\<forall>q \<in> set rp. endpointOf q = ''/catalog/products''"
      by blast
    from appended_trans[OF a1 a2] have a12: "appended env ?w0 w2 (?start # es) (rb @ rc @ rp)"
      by simp
    have finish: ?thesis
      if "appended env ?w0 v (?start # es') (rb @ rc @ rp)"
        "sendEmailLog env v = (r, w') \<or> (w' = v \<and> \<not> accepts env)" for v es'
      using that e by blast
    show ?thesis
    proof (cases r2)
      case (Inr u2)
      with assms L1 r1 st have "sendEmailLog env w2 = (r, w')"
        by (simp add: runMigration_def)
      with finish[OF a12] show ?thesis by blast
    next
      case (Inl e2)
      let ?w3 = "logged env (''Migration failed: '' @ message e2) w2"
      obtain r3 where L3: "log env (''Migration failed: '' @ message e2) w2 = (r3, ?w3)"
        by (simp add: log_result)
      from appended_trans[OF a12 appended_logged[of env w2 "''Migration failed: '' @ message e2"]]
      have a3: "appended env ?w0 ?w3
          (?start # es @ [logMessage (now env (ticks w2)) (''Migration failed: '' @ message e2)])
          (rb @ rc @ rp)"
        by simp
      have run: "runMigration env w =
          (case r3 of Inl thrown \<Rightarrow> Some (Inl thrown, ?w3) | Inr u \<Rightarrow> Some (sendEmailLog env ?w3))"
        unfolding runMigration_def L1 r1 prod.case sum.case st Inl option.case L3
        by (cases r3) simp_all
      show ?thesis
      proof (cases r3)
        case (Inl thrown)
        with run assms have w': "w' = ?w3" by simp
        from Inl L3 have "\<not> accepts env"
          using log_accepts[of env "''Migration failed: '' @ message e2" w2] by auto
        with finish[OF a3] w' show ?thesis by blast
      next
        case (Inr u3)
        with run assms have "sendEmailLog env ?w3 = (r, w')" by simp
        with finish[OF a3] show ?thesis by blast
      qed
    qed
  qed
qed

lemma continues_iff: "continues api endpoint j \<longleftrightarrow> (\<exists>r. get api endpoint j limit = Inr r \<and> links_next r)"
  by (auto simp: continues_def split: sum.splits)

lemma fetch_failsAt:
  assumes "failsAt api endpoint k e" and acc: "accepts env"
  shows "\<exists>w'. fetchAllResources env api endpoint w = Some (Inl e, w') \<and>
           requests w' = requests w @ map (\<lambda>j. Get endpoint (Suc j) limit) [0..<k] \<and>
           emails w' = emails w"
proof -
  from assms obtain n where n: "k = Suc n" by (cases k) (auto simp: failsAt_def)
  have a: "get api endpoint (1 + n) limit = Inl e"
    using assms n by (simp add: failsAt_def)
  have b: "\<forall>j<n. \<exists>r. get api endpoint (1 + j) limit = Inr r \<and> links_next r"
    using assms n by (auto simp: failsAt_def continues_iff)
  from fetchLoop_fails[OF a b, of env "[]" w] acc show ?thesis
    by (auto simp: fetchAllResources_def n accepts_def)
qed

lemma fetch_endsAt:
  assumes "endsAt api endpoint k"
  shows "\<exists>items w'. fetchAllResources env api endpoint w = Some (Inr items, w')"
proof -
  define ps where "ps = map (\<lambda>j. page_data (projr (get api endpoint (Suc j) limit))) [0..<k]"
  have len: "length ps = k" by (simp add: ps_def)
  have ne: "ps \<noteq> []" using assms len by (auto simp: endsAt_def)
  have "\<forall>j<length ps. \<exists>r. get api endpoint (1 + j) limit = Inr r \<and> page_data r = ps ! j \<and>
                                links_next r = (Suc j < length ps)"
  proof (intro allI impI)
    fix j assume j: "j < length ps"
    show "\<exists>r. get api endpoint (1 + j) limit = Inr r \<and> page_data r = ps ! j \<and>
                                links_next r = (Suc j < length ps)"
    proof (cases "Suc j < k")
      case True
      with assms have "continues api endpoint (Suc j)" by (simp add: endsAt_def)
      then obtain r where "get api endpoint (Suc j) limit = Inr r" "links_next r"
        by (auto simp: continues_iff)
      with True j show ?thesis by (simp add: ps_def len)
    next
      case False
      with j len have "Suc j = k" by simp
      with assms obtain r where "get api endpoint (Suc j) limit = Inr r" "\<not> links_next r"
        by (auto simp: endsAt_def split: sum.splits)
      with False j show ?thesis by (simp add: ps_def len)
    qed
  qed
  from fetchLoop_pages[OF this ne, of env "[]" w] show ?thesis
    by (simp add: fetchAllResources_def)
qed

lemma stops_cases:
  assumes "\<exists>k\<ge>1. \<not> continues api endpoint k"
  shows "(\<exists>k e. failsAt api endpoint k e) \<or> (\<exists>k. endsAt api endpoint k)"
proof -
  from assms have "\<exists>k. 1 \<le> k \<and> \<not> continues api endpoint k" by blast
  then obtain k where k: "1 \<le> k \<and> \<not> continues api endpoint k"
    and least: "\<forall>m<k. \<not> (1 \<le> m \<and> \<not> continues api endpoint m)"
    unfolding exists_least_iff[of "\<lambda>k. 1 \<le> k \<and> \<not> continues api endpoint k"] by blast
  have before: "\<forall>j \<in> {1..<k}. continues api endpoint j"
    using least by auto
  show ?thesis
  proof (cases "get api endpoint k limit")
    case (Inl e)
    with k before have "failsAt api endpoint k e" by (simp add: failsAt_def)
    then show ?thesis by blast
  next
    case (Inr r)
    with k before have "endsAt api endpoint k" by (simp add: endsAt_def continues_def)
    then show ?thesis by blast
  qed
qed

lemma migrateBrands_fails:
  assumes "failsAt (sourceApi env) ''/catalog/brands'' k e" and "accepts env"
  shows "\<exists>w'. migrateBrands env w = Some (Inl e, w') \<and>
           requests w' = requests w @ map (\<lambda>j. Get ''/catalog/brands'' (Suc j) limit) [0..<k] \<and>
           emails w' = emails w"
  using fetch_failsAt[OF assms, of w] by (auto simp: migrateBrands_def)

lemma migrateCategories_fails:
  assumes "failsAt (sourceApi env) ''/catalog/categories'' k e" and "accepts env"
  shows "\<exists>w'. migrateCategories env w = Some (Inl e, w') \<and>
           requests w' = requests w @ map (\<lambda>j. Get ''/catalog/categories'' (Suc j) limit) [0..<k] \<and>
           emails w' = emails w"
  using fetch_failsAt[OF assms, of w] by (auto simp: migrateCategories_def)

lemma migrateProducts_fails:
  assumes "failsAt (sourceApi env) ''/catalog/products'' k e" and "accepts env"
  shows "\<exists>w'. migrateProducts env bm cm w = Some (Inl e, w') \<and>
           requests w' = requests w @ map (\<lambda>j. Get ''/catalog/products'' (Suc j) limit) [0..<k] \<and>
           emails w' = emails w"
  using fetch_failsAt[OF assms, of w] by (auto simp: migrateProducts_def)

lemma migrateBrands_ends:
  assumes "endsAt (sourceApi env) ''/catalog/brands'' k" and acc: "accepts env"
  shows "\<exists>m w'. migrateBrands env w = Some (Inr m, w')"
proof -
  from fetch_endsAt[OF assms(1), of env w] obtain items w1 where
    "fetchAllResources env (sourceApi env) ''/catalog/brands'' w = Some (Inr items, w1)" by blast
  with brandLoop_returns[OF acc, of items "[]" w1] show ?thesis
    by (auto simp: migrateBrands_def)
qed

lemma migrateCategories_ends:
  assumes "endsAt (sourceApi env) ''/catalog/categories'' k" and acc: "accepts env"
  shows "\<exists>m w'. migrateCategories env w = Some (Inr m, w')"
proof -
  from fetch_endsAt[OF assms(1), of env w] obtain items w1 where
    "fetchAllResources env (sourceApi env) ''/catalog/categories'' w = Some (Inr items, w1)" by blast
  with categoryLoop_returns[OF acc, of "jsSort compareParent items" "[]" w1] show ?thesis
    by (auto simp: migrateCategories_def)
qed

lemma migrateProducts_ends:
  assumes "endsAt (sourceApi env) ''/catalog/products'' k" and acc: "accepts env"
  shows "\<exists>w'. migrateProducts env bm cm w = Some (Inr (), w')"
proof -
  from fetch_endsAt[OF assms(1), of env w] obtain items w1 where
    "fetchAllResources env (sourceApi env) ''/catalog/products'' w = Some (Inr items, w1)" by blast
  with productLoop_returns[OF acc, of items bm cm w1] show ?thesis
    by (auto simp: migrateProducts_def)
qed

lemma stages_brands_fail:
  assumes "failsAt (sourceApi env) ''/catalog/brands'' k e" and "accepts env"
  shows "\<exists>w'. stages env w = Some (Inl e, w') \<and>
           requests w' = requests w @ map (\<lambda>j. Get ''/catalog/brands'' (Suc j) limit) [0..<k] \<and>
           emails w' = emails w"
  using migrateBrands_fails[OF assms, of w] by (auto simp: stages_def)

lemma stages_categories_fail:
  assumes b: "endsAt (sourceApi env) ''/catalog/brands'' kb"
    and c: "failsAt (sourceApi env) ''/catalog/categories'' k e"
    and acc: "accepts env"
  shows "\<exists>w' rb. stages env w = Some (Inl e, w') \<and>
           requests w' = requests w @ rb @ map (\<lambda>j. Get ''/catalog/categories'' (Suc j) limit) [0..<k] \<and>
           (\<forall>q \<in> set rb. endpointOf q = ''/catalog/brands'') \<and>
           emails w' = emails w"
proof -
  from migrateBrands_ends[OF b acc, of w] obtain bm wB where
    B: "migrateBrands env w = Some (Inr bm, wB)" by blast
  from migrateBrands_appended[OF B] obtain eb rb where
    rb: "appended env w wB eb rb" "\<forall>q \<in> set rb. endpointOf q = ''/catalog/brands''" by blast
  let ?w2 = "logged env (''Migrated '' @ natToString (mapSize bm) @ '' brands'') wB"
  from migrateCategories_fails[OF c acc, of ?w2] obtain wC where
    C: "migrateCategories env ?w2 = Some (Inl e, wC)"
       "requests wC = requests ?w2 @ map (\<lambda>j. Get ''/catalog/categories'' (Suc j) limit) [0..<k]"
       "emails wC = emails ?w2" by blast
  have "stages env w = Some (Inl e, wC)"
    unfolding stages_def B option.case prod.case sum.case log_accepts[OF acc] C(1) ..
  with rb C(2,3) show ?thesis
    by (intro exI[of _ wC] exI[of _ rb]) (simp add: appended_def)
qed

lemma stages_products_fail:
  assumes b: "endsAt (sourceApi env) ''/catalog/brands'' kb"
    and c: "endsAt (sourceApi env) ''/catalog/categories'' kc"
    and p: "failsAt (sourceApi env) ''/catalog/products'' k e"
    and acc: "accepts env"
  shows "\<exists>w' rb rc. stages env w = Some (Inl e, w') \<and>
           requests w' = requests w @ rb @ rc @
             map (\<lambda>j. Get ''/catalog/products'' (Suc j) limit) [0..<k] \<and>
           (\<forall>q \<in> set rb. endpointOf q = ''/catalog/brands'') \<and>
           (\<forall>q \<in> set rc. endpointOf q = ''/catalog/categories'') \<and>
           emails w' = emails w"
proof -
  from migrateBrands_ends[OF b acc, of w] obtain bm wB where
    B: "migrateBrands env w = Some (Inr bm, wB)" by blast
  from migrateBrands_appended[OF B] obtain eb rb where
    rb: "appended env w wB eb rb" "\<forall>q \<in> set rb. endpointOf q = ''/catalog/brands''" by blast
  let ?w2 = "logged env (''Migrated '' @ natToString (mapSize bm) @ '' brands'') wB"
  from migrateCategories_ends[OF c acc, of ?w2] obtain cm wC where
    C: "migrateCategories env ?w2 = Some (Inr cm, wC)" by blast
  from migrateCategories_appended[OF C] obtain ec rc where
    rc: "appended env ?w2 wC ec rc" "\<forall>q \<in> set rc. endpointOf q = ''/catalog/categories''" by blast
  let ?w4 = "logged env (''Migrated '' @ natToString (mapSize cm) @ '' categories'') wC"
  from migrateProducts_fails[OF p acc, of bm cm ?w4] obtain wP where
    P: "migrateProducts env bm cm ?w4 = Some (Inl e, wP)"
       "requests wP = requests ?w4 @ map (\<lambda>j. Get ''/catalog/products'' (Suc j) limit) [0..<k]"
       "emails wP = emails ?w4" by blast
  have "stages env w = Some (Inl e, wP)"
    unfolding stages_def B option.case prod.case sum.case log_accepts[OF acc] C P(1) ..
  with rb rc P(2,3) show ?thesis
    by (intro exI[of _ wP] exI[of _ rb] exI[of _ rc]) (simp add: appended_def)
qed

lemma stages_complete:
  assumes b: "endsAt (sourceApi env) ''/catalog/brands'' kb"
    and c: "endsAt (sourceApi env) ''/catalog/categories'' kc"
    and p: "endsAt (sourceApi env) ''/catalog/products'' kp"
    and acc: "accepts env"
  shows "\<exists>w5. stages env w = Some (Inr (), logged env ''Migration completed'' w5) \<and>
           emails w5 = emails w"
proof -
  from migrateBrands_ends[OF b acc, of w] obtain bm wB where
    B: "migrateBrands env w = Some (Inr bm, wB)" by blast
  let ?w2 = "logged env (''Migrated '' @ natToString (mapSize bm) @ '' brands'') wB"
  from migrateCategories_ends[OF c acc, of ?w2] obtain cm wC where
    C: "migrateCategories env ?w2 = Some (Inr cm, wC)" by blast
  let ?w4 = "logged env (''Migrated '' @ natToString (mapSize cm) @ '' categories'') wC"
  from migrateProducts_ends[OF p acc, of bm cm ?w4] obtain wP where
    P: "migrateProducts env bm cm ?w4 = Some (Inr (), wP)" by blast
  have st: "stages env w = Some (Inr (), logged env ''Migration completed'' wP)"
    unfolding stages_def B option.case prod.case sum.case log_accepts[OF acc] C P ..
  from stages_appended[OF st] have "emails wP = emails w"
    by (auto simp: appended_def)
  with st show ?thesis by blast
qed

lemma sendEmailLog_accepted:
  assumes acc: "accepts env"
  shows "\<exists>w' outcome.
     sendEmailLog env w = (Inr (), w') \<and>
     logs w' = logs w @ [outcome] \<and>
     requests w' = requests w \<and> emails w' = emails w @ [emailOf env w]"
proof -
  obtain r w' where s: "sendEmailLog env w = (r, w')"
    by (cases "sendEmailLog env w")
  from sendEmailLog_effect[OF s] acc show ?thesis
    unfolding s by auto
qed

lemma run_failed:
  assumes "stages env (logged env ''Starting migration...'' (w\<lparr>logs := []\<rparr>)) = Some (Inl e, w2)"
    and acc: "accepts env"
  shows "\<exists>w' entries t outcome mail.
           runMigration env w = Some (Inr (), w') \<and>
           requests w' = requests w2 \<and>
           logs w' = entries @ [logMessage (now env t) (''Migration failed: '' @ message e), outcome] \<and>
           emails w' = emails w2 @ [mail]"
proof -
  let ?w3 = "logged env (''Migration failed: '' @ message e) w2"
  from sendEmailLog_accepted[OF acc, of ?w3] obtain w' outcome where
    s: "sendEmailLog env ?w3 = (Inr (), w')" "logs w' = logs ?w3 @ [outcome]"
       "requests w' = requests ?w3" "emails w' = emails ?w3 @ [emailOf env ?w3]" by blast
  have "runMigration env w = Some (Inr (), w')"
    unfolding runMigration_def log_accepts[OF acc] prod.case sum.case assms(1) option.case s(1) ..
  with s show ?thesis
    by (intro exI[of _ w'] exI[of _ "logs w2"] exI[of _ "ticks w2"] exI[of _ outcome]
          exI[of _ "emailOf env ?w3"]) simp
qed

lemma run_completed:
  assumes "stages env (logged env ''Starting migration...'' (w\<lparr>logs := []\<rparr>)) =
             Some (Inr (), logged env ''Migration completed'' w5)"
    and acc: "accepts env"
  shows "\<exists>w' entries t outcome mail.
           runMigration env w = Some (Inr (), w') \<and>
           logs w' = entries @ [logMessage (now env t) ''Migration completed'', outcome] \<and>
           emails w' = emails w5 @ [mail]"
proof -
  let ?w3 = "logged env ''Migration completed'' w5"
  from sendEmailLog_accepted[OF acc, of ?w3] obtain w' outcome where
    s: "sendEmailLog env ?w3 = (Inr (), w')" "logs w' = logs ?w3 @ [outcome]"
       "emails w' = emails ?w3 @ [emailOf env ?w3]" by blast
  have "runMigration env w = Some (Inr (), w')"
    unfolding runMigration_def log_accepts[OF acc] prod.case sum.case assms(1) option.case s(1) ..
  with s show ?thesis
    by (intro exI[of _ w'] exI[of _ "logs w5"] exI[of _ "ticks w5"] exI[of _ outcome]
          exI[of _ "emailOf env ?w3"]) simp
qed

lemma runMigration_returns:
  assumes "\<forall>endpoint \<in> {''/catalog/brands'', ''/catalog/categories'', ''/catalog/products''}.
             \<exists>k\<ge>1. \<not> continues (sourceApi env) endpoint k"
    and acc: "accepts env"
  shows "\<exists>w'. runMigration env w = Some (Inr (), w')"
proof -
  let ?w1 = "logged env ''Starting migration...'' (w\<lparr>logs := []\<rparr>)"
  from assms(1) have b: "(\<exists>k e. failsAt (sourceApi env) ''/catalog/brands'' k e) \<or>
                      (\<exists>k. endsAt (sourceApi env) ''/catalog/brands'' k)"
    and c: "(\<exists>k e. failsAt (sourceApi env) ''/catalog/categories'' k e) \<or>
            (\<exists>k. endsAt (sourceApi env) ''/catalog/categories'' k)"
    and p: "(\<exists>k e. failsAt (sourceApi env) ''/catalog/products'' k e) \<or>
            (\<exists>k. endsAt (sourceApi env) ''/catalog/products'' k)"
    by (auto intro!: stops_cases)
  from b show ?thesis
  proof
    assume "\<exists>k e. failsAt (sourceApi env) ''/catalog/brands'' k e"
    then obtain k e where "failsAt (sourceApi env) ''/catalog/brands'' k e" by blast
    from stages_brands_fail[OF this acc, of ?w1] obtain w2 where "stages env ?w1 = Some (Inl e, w2)"
      by blast
    from run_failed[OF this acc] show ?thesis by blast
  next
    assume "\<exists>k. endsAt (sourceApi env) ''/catalog/brands'' k"
    then obtain kb where kb: "endsAt (sourceApi env) ''/catalog/brands'' kb" by blast
    from c show ?thesis
    proof
      assume "\<exists>k e. failsAt (sourceApi env) ''/catalog/categories'' k e"
      then obtain k e where "failsAt (sourceApi env) ''/catalog/categories'' k e" by blast
      from stages_categories_fail[OF kb this acc, of ?w1] obtain w2 where
        "stages env ?w1 = Some (Inl e, w2)" by blast
      from run_failed[OF this acc] show ?thesis by blast
    next
      assume "\<exists>k. endsAt (sourceApi env) ''/catalog/categories'' k"
      then obtain kc where kc: "endsAt (sourceApi env) ''/catalog/categories'' kc" by blast
      from p show ?thesis
      proof
        assume "\<exists>k e. failsAt (sourceApi env) ''/catalog/products'' k e"
        then obtain k e where "failsAt (sourceApi env) ''/catalog/products'' k e" by blast
        from stages_products_fail[OF kb kc this acc, of ?w1] obtain w2 where
          "stages env ?w1 = Some (Inl e, w2)" by blast
        from run_failed[OF this acc] show ?thesis by blast
      next
        assume "\<exists>k. endsAt (sourceApi env) ''/catalog/products'' k"
        then obtain kp where kp: "endsAt (sourceApi env) ''/catalog/products'' kp" by blast
        from stages_complete[OF kb kc kp acc, of ?w1] obtain w5 where
          "stages env ?w1 = Some (Inr (), logged env ''Migration completed'' w5)" by blast
        from run_completed[OF this acc] show ?thesis by blast
      qed
    qed
  qed
qed




lemma example_stops:
  "\<forall>endpoint \<in> {''/catalog/brands'', ''/catalog/categories'', ''/catalog/products''}.
     \<exists>k\<ge>1. \<not> continues (sourceApi exampleEnv) endpoint k"
proof -
  have "\<not> continues exampleSource ''/catalog/brands'' 1"
    "\<not> continues exampleSource ''/catalog/categories'' 2"
    "\<not> continues exampleSource ''/catalog/products'' 1"
    by (simp_all add: continues_def exampleSource_def)
  then have "\<exists>k\<ge>1. \<not> continues exampleSource ''/catalog/brands'' k"
    "\<exists>k\<ge>1. \<not> continues exampleSource ''/catalog/categories'' k"
    "\<exists>k\<ge>1. \<not> continues exampleSource ''/catalog/products'' k"
    by (intro exI[of _ 1] exI[of _ 2]; simp)+
  then show ?thesis by (simp add: exampleEnv_def)
qed










text \<open>
  C10. The log buffer is emptied when a run starts: whatever the buffer held before, at
  the end of the run it holds the entries of this run only, beginning with
  \<open>Starting migration...\<close>. A mail handed to the mail service has, after the heading with
  the completion time, exactly the concatenation of the entries logged during the run up
  to then, in order; what is logged about the mail itself comes afterwards and is not in
  it. The log file keeps what it held and grows. When the log file takes every entry, one
  mail is handed over, one entry about it follows, and the file grows by exactly the
  entries of the run.
\<close>

theorem notification_holds_this_run:
  assumes "runMigration env w = Some (r, w')"
  shows "\<exists>entries later.
     logs w' = entries @ later \<and>
     entries \<noteq> [] \<and>
     hd entries = logMessage (now env (ticks w)) ''Starting migration...'' \<and>
     (\<exists>lines. logFile w' = logFile w @ lines) \<and>
     (emails w' = emails w \<or>
      (\<exists>t. emails w' = emails w @
         [\<lparr>e_from = ''Migration Script <onboarding@resend.dev>'',
           e_to = EMAIL_TO env,
           e_subject = ''BigCommerce Migration Log'',
           e_text = ''Migration completed at '' @ now env t @ newline @ newline
                    @ ''Logs:'' @ newline @ concat entries\<rparr>])) \<and>
     (accepts env \<longrightarrow>
        (\<exists>outcome t.
           later = [outcome] \<and>
           logFile w' = logFile w @ entries @ [outcome] \<and>
           emails w' = emails w @
             [\<lparr>e_from = ''Migration Script <onboarding@resend.dev>'',
               e_to = EMAIL_TO env,
               e_subject = ''BigCommerce Migration Log'',
               e_text = ''Migration completed at '' @ now env t @ newline @ newline
                        @ ''Logs:'' @ newline @ concat entries\<rparr>] \<and>
           (outcome = logMessage (now env (Suc t)) ''Email sent successfully'' \<or>
            (\<exists>e. outcome = logMessage (now env (Suc t)) (''Failed to send email: '' @ message e)))))"
proof -
  let ?start = "logMessage (now env (ticks w)) ''Starting migration...''"
  let ?mail = "\<lambda>t entries.
         \<lparr>e_from = ''Migration Script <onboarding@resend.dev>'',
           e_to = EMAIL_TO env,
           e_subject = ''BigCommerce Migration Log'',
           e_text = ''Migration completed at '' @ now env t @ newline @ newline
                    @ ''Logs:'' @ newline @ concat entries\<rparr>"
  from run_before_report[OF assms] obtain w3 es rs where
    a: "appended env (w\<lparr>logs := []\<rparr>) w3 (?start # es) rs"
    and s: "sendEmailLog env w3 = (r, w') \<or> (w' = w3 \<and> \<not> accepts env)"
    by blast
  from a obtain fs3 where
    l3: "logs w3 = ?start # es" "logFile w3 = logFile w @ fs3" "emails w3 = emails w"
      "accepts env \<longrightarrow> fs3 = ?start # es"
    by (auto simp: appended_def)
  have m3: "emailOf env w3 = ?mail (ticks w3) (?start # es)"
    by (simp add: emailOf_def l3(1))
  from s show ?thesis
  proof
    assume "w' = w3 \<and> \<not> accepts env"
    with l3 show ?thesis
      by (intro exI[of _ "?start # es"] exI[of _ "[]"]) simp
  next
    assume "sendEmailLog env w3 = (r, w')"
    from sendEmailLog_effect[OF this] obtain later fs where
      o: "logs w' = logs w3 @ later" "logFile w' = logFile w3 @ fs"
         "emails w' = emails w3 @ [emailOf env w3]"
         "accepts env \<longrightarrow>
            r = Inr () \<and> fs = later \<and>
            (later = [logMessage (now env (Suc (ticks w3))) ''Email sent successfully''] \<or>
             (\<exists>e. later = [logMessage (now env (Suc (ticks w3))) (''Failed to send email: '' @ message e)]))"
      by blast
    have mail: "emails w' = emails w @ [?mail (ticks w3) (?start # es)]"
      using o(3) l3(3) m3 by simp
    have acc: "accepts env \<longrightarrow>
        (\<exists>outcome t.
           later = [outcome] \<and>
           logFile w' = logFile w @ (?start # es) @ [outcome] \<and>
           emails w' = emails w @ [?mail t (?start # es)] \<and>
           (outcome = logMessage (now env (Suc t)) ''Email sent successfully'' \<or>
            (\<exists>e. outcome = logMessage (now env (Suc t)) (''Failed to send email: '' @ message e))))"
    proof
      assume ac: "accepts env"
      with o(4) obtain outcome where
        out: "later = [outcome]" "fs = [outcome]"
          "outcome = logMessage (now env (Suc (ticks w3))) ''Email sent successfully'' \<or>
            (\<exists>e. outcome = logMessage (now env (Suc (ticks w3))) (''Failed to send email: '' @ message e))"
        by auto
      from ac l3(4) have "fs3 = ?start # es" by simp
      with o(2) l3(2) out(2) have "logFile w' = logFile w @ (?start # es) @ [outcome]"
        by simp
      with out(1,3) mail show "\<exists>outcome t.
           later = [outcome] \<and>
           logFile w' = logFile w @ (?start # es) @ [outcome] \<and>
           emails w' = emails w @ [?mail t (?start # es)] \<and>
           (outcome = logMessage (now env (Suc t)) ''Email sent successfully'' \<or>
            (\<exists>e. outcome = logMessage (now env (Suc t)) (''Failed to send email: '' @ message e)))"
        by (intro exI[of _ outcome] exI[of _ "ticks w3"]) simp
    qed
    have grows: "\<exists>lines. logFile w' = logFile w @ lines"
      using o(2) l3(2) by simp
    have sent: "emails w' = emails w \<or> (\<exists>t. emails w' = emails w @ [?mail t (?start # es)])"
      using mail by blast
    from o(1) l3(1) grows sent acc show ?thesis
      by (intro exI[of _ "?start # es"] exI[of _ later]) simp
  qed
qed

theorem notification_holds_this_run_witness:
  "logs staleWorld = [''entry of an earlier run''] \<and>
   (\<exists>w' entries outcome t.
      runMigration exampleEnv staleWorld = Some (Inr (), w') \<and>
      logFile w' = ''entry of an earlier run'' # entries @ [outcome] \<and>
      logs w' = entries @ [outcome] \<and>
      hd entries = logMessage ''2026-01-01T01:00:00.000Z'' ''Starting migration...'' \<and>
      emails w' =
        [\<lparr>e_from = ''Migration Script <onboarding@resend.dev>'',
          e_to = ''ops@example.com'',
          e_subject = ''BigCommerce Migration Log'',
          e_text = ''Migration completed at '' @ now exampleEnv t @ newline @ newline
                   @ ''Logs:'' @ newline @ concat entries\<rparr>])"
proof -
  from runMigration_returns[OF example_stops accepts_example, of staleWorld] obtain w' where
    run: "runMigration exampleEnv staleWorld = Some (Inr (), w')" by blast
  from notification_holds_this_run[OF run] obtain entries later where
    e: "logs w' = entries @ later"
       "hd entries = logMessage (now exampleEnv (ticks staleWorld)) ''Starting migration...''"
    and acc: "accepts exampleEnv \<longrightarrow>
        (\<exists>outcome t.
           later = [outcome] \<and>
           logFile w' = logFile staleWorld @ entries @ [outcome] \<and>
           emails w' = emails staleWorld @
             [\<lparr>e_from = ''Migration Script <onboarding@resend.dev>'',
               e_to = EMAIL_TO exampleEnv,
               e_subject = ''BigCommerce Migration Log'',
               e_text = ''Migration completed at '' @ now exampleEnv t @ newline @ newline
                        @ ''Logs:'' @ newline @ concat entries\<rparr>] \<and>
           (outcome = logMessage (now exampleEnv (Suc t)) ''Email sent successfully'' \<or>
            (\<exists>e. outcome = logMessage (now exampleEnv (Suc t)) (''Failed to send email: '' @ message e))))"
    by (elim exE conjE)
  from acc accepts_example obtain outcome t where
    o: "later = [outcome]"
       "logFile w' = logFile staleWorld @ entries @ [outcome]"
       "emails w' = emails staleWorld @
             [\<lparr>e_from = ''Migration Script <onboarding@resend.dev>'',
               e_to = EMAIL_TO exampleEnv,
               e_subject = ''BigCommerce Migration Log'',
               e_text = ''Migration completed at '' @ now exampleEnv t @ newline @ newline
                        @ ''Logs:'' @ newline @ concat entries\<rparr>]"
    by blast
  with run e show ?thesis
    by (intro conjI exI[of _ w'] exI[of _ entries] exI[of _ outcome] exI[of _ t])
       (simp_all add: staleWorld_def freshWorld_def exampleEnv_def)
qed

end
